theory Spec2Isabelle
  imports Main "HOL-Library.Word"
begin

unbundle bit_operations_syntax

section \<open>Bytes, strings and errors\<close>

text \<open>
  A Go \<^verbatim>\<open>[]byte\<close> is a list of 8-bit words and a Go \<^verbatim>\<open>string\<close> is a list of
  characters, each character one byte. The conversion \<^verbatim>\<open>[]byte(s)\<close> reads the bytes of
  the string off one by one.
\<close>

type_synonym byte = "8 word"

definition stringBytes :: "string \<Rightarrow> byte list" where
  "stringBytes s = map (\<lambda>c. of_nat (of_char c)) s"

definition bytesString :: "byte list \<Rightarrow> string" where
  "bytesString b = map (\<lambda>w. char_of (unat w)) b"

subsection \<open>Close status codes (socket.go)\<close>

abbreviation (input) CloseNormalClosure :: int where "CloseNormalClosure \<equiv> 1000"
abbreviation (input) CloseGoingAway :: int where "CloseGoingAway \<equiv> 1001"
abbreviation (input) CloseProtocolError :: int where "CloseProtocolError \<equiv> 1002"
abbreviation (input) CloseUnsupportedData :: int where "CloseUnsupportedData \<equiv> 1003"
abbreviation (input) CloseNoStatusReceived :: int where "CloseNoStatusReceived \<equiv> 1005"
abbreviation (input) CloseAbnormalClosure :: int where "CloseAbnormalClosure \<equiv> 1006"
abbreviation (input) CloseInvalidFramePayloadData :: int where "CloseInvalidFramePayloadData \<equiv> 1007"
abbreviation (input) ClosePolicyViolation :: int where "ClosePolicyViolation \<equiv> 1008"
abbreviation (input) CloseMessageTooBig :: int where "CloseMessageTooBig \<equiv> 1009"
abbreviation (input) CloseMandatoryExtension :: int where "CloseMandatoryExtension \<equiv> 1010"
abbreviation (input) CloseInternalServerErr :: int where "CloseInternalServerErr \<equiv> 1011"
abbreviation (input) CloseTLSHandshake :: int where "CloseTLSHandshake \<equiv> 1015"

subsection \<open>CloseError and the error values of the package\<close>

record CloseError =
  Code :: int
  Reason :: string

text \<open>
  The values of Go's \<^verbatim>\<open>error\<close> interface that the package produces or passes on:
  \<^verbatim>\<open>io.EOF\<close>, the two \<^verbatim>\<open>errors.New\<close> values, a \<^verbatim>\<open>*CloseError\<close>, a
  \<^verbatim>\<open>*net.OpError\<close> of the transport, and any other error of a collaborator.
\<close>

datatype error =
    EOF
  | ErrInvalidCode
  | ErrSocketClosed
  | ErrClose CloseError
  | ErrNetOp string
  | ErrOther string

text \<open>\<^verbatim>\<open>closeErrorExist\<close>: the \<^verbatim>\<open>switch\<close> over the twelve recognised codes.\<close>

definition closeErrorExist :: "int \<Rightarrow> bool" where
  "closeErrorExist i =
     (i = CloseNormalClosure \<or> i = CloseGoingAway \<or> i = CloseProtocolError
      \<or> i = CloseUnsupportedData \<or> i = CloseNoStatusReceived \<or> i = CloseAbnormalClosure
      \<or> i = CloseInvalidFramePayloadData \<or> i = ClosePolicyViolation
      \<or> i = CloseMessageTooBig \<or> i = CloseMandatoryExtension
      \<or> i = CloseInternalServerErr \<or> i = CloseTLSHandshake)"

text \<open>
  \<^verbatim>\<open>binary.BigEndian.PutUint16\<close> of the standard library: the high byte first.
  \<^verbatim>\<open>toBytesCode\<close> converts the code with \<^verbatim>\<open>uint16(c.Code)\<close>, which keeps the low
  sixteen bits.
\<close>

definition PutUint16 :: "16 word \<Rightarrow> byte list" where
  "PutUint16 v = [ucast (drop_bit 8 v), ucast v]"

definition toBytesCode :: "CloseError \<Rightarrow> byte list" where
  "toBytesCode c = PutUint16 (word_of_int (Code c))"

text \<open>
  \<^verbatim>\<open>ToBytes\<close> returns the pair (bytes, error) of the Go function. On an unknown code it
  calls itself on the substitute error, whose code is recognised, and returns those
  bytes together with the error \<^verbatim>\<open>invalid error code\<close>.
\<close>

function ToBytes :: "CloseError \<Rightarrow> byte list \<times> error option" where
  "ToBytes c =
     (if \<not> closeErrorExist (Code c) then
        (let n = \<lparr>Code = CloseNoStatusReceived, Reason = ''no status recieved''\<rparr>;
             b = fst (ToBytes n)
         in (b, Some ErrInvalidCode))
      else (toBytesCode c @ stringBytes (Reason c), None))"
  by pat_completeness auto
termination
  by (relation "measure (\<lambda>c. if closeErrorExist (Code c) then 0 else 1)")
     (auto simp: closeErrorExist_def)

declare ToBytes.simps [simp del]

text \<open>
  \<^verbatim>\<open>NewCloseError\<close>: the code is read big-endian from the first two bytes when there
  are two; with fewer bytes the code stays 0, which is not recognised.
\<close>

definition Uint16 :: "byte list \<Rightarrow> 16 word" where
  "Uint16 b = push_bit 8 (ucast (b ! 0)) OR ucast (b ! 1)"

definition NewCloseError :: "byte list \<Rightarrow> CloseError \<times> error option" where
  "NewCloseError b =
     (let c = (if length b \<ge> 2 then uint (Uint16 (take 2 b)) else 0)
      in if \<not> closeErrorExist c then
           (\<lparr>Code = CloseNoStatusReceived, Reason = ''no status recieved''\<rparr>, Some ErrInvalidCode)
         else (\<lparr>Code = c, Reason = bytesString (drop 2 b)\<rparr>, None))"

section \<open>The buffered byte source\<close>

text \<open>
  The transport is an \<^verbatim>\<open>io.Reader\<close>: each call of its \<^verbatim>\<open>Read\<close> hands over the next
  chunk of bytes that has arrived, cut to the capacity of the slice it is given. The
  chunks still to arrive are \<open>pending\<close>. When none is left, a stream that has ended
  (\<open>eof\<close>) answers \<^verbatim>\<open>(0, io.EOF)\<close>, and a connection that stays open and silent does
  not answer at all: the call blocks, which is the value \<open>None\<close>.
\<close>

record source =
  pending :: "byte list list"
  eof :: bool

definition srcRead :: "source \<Rightarrow> nat \<Rightarrow> ((byte list \<times> error option) \<times> source) option" where
  "srcRead s n =
     (case pending s of
        [] \<Rightarrow> (if eof s then Some (([], Some EOF), s) else None)
      | c # cs \<Rightarrow>
          (if length c \<le> n then Some ((c, None), s\<lparr>pending := cs\<rparr>)
           else Some ((take n c, None), s\<lparr>pending := drop n c # cs\<rparr>)))"

text \<open>
  \<^verbatim>\<open>bufio.Reader\<close> of the standard library, as \<^verbatim>\<open>bufio.NewReader\<close> builds it: an
  internal buffer of 4096 bytes over the source. \<open>buf\<close> holds the bytes buffered and not
  yet handed out (\<^verbatim>\<open>b.buf[b.r:b.w]\<close>). \<open>bufRead b n\<close> is \<^verbatim>\<open>b.Read(p)\<close> with
  \<^verbatim>\<open>len(p) = n\<close>; it returns the bytes copied into \<^verbatim>\<open>p\<close> and the error. As in the
  library it reads the source at most once: directly into \<^verbatim>\<open>p\<close> when the buffer is
  empty and \<^verbatim>\<open>p\<close> is at least as large as it, into the buffer otherwise. The source
  above never returns bytes together with an error, so the reader's stored error is
  always consumed by the call that received it and is not a field here.
\<close>

record reader =
  rd :: source
  buf :: "byte list"

abbreviation (input) defaultBufSize :: nat where "defaultBufSize \<equiv> 4096"

definition Buffered :: "reader \<Rightarrow> nat" where
  "Buffered b = length (buf b)"

definition bufRead :: "reader \<Rightarrow> nat \<Rightarrow> ((byte list \<times> error option) \<times> reader) option" where
  "bufRead b n =
     (if n = 0 then Some (([], None), b)
      else if buf b = [] then
        (if n \<ge> defaultBufSize then
           (case srcRead (rd b) n of
              None \<Rightarrow> None
            | Some ((d, e), s') \<Rightarrow> Some ((d, e), b\<lparr>rd := s'\<rparr>))
         else
           (case srcRead (rd b) defaultBufSize of
              None \<Rightarrow> None
            | Some ((d, e), s') \<Rightarrow>
                (if d = [] then Some (([], e), b\<lparr>rd := s'\<rparr>)
                 else Some ((take n d, None), b\<lparr>rd := s', buf := drop n d\<rparr>))))
      else Some ((take n (buf b), None), b\<lparr>buf := drop n (buf b)\<rparr>))"

text \<open>
  A new reader over a source that holds the bytes \<open>d\<close> as one chunk. The reader the
  tests build over a byte slice (\<^verbatim>\<open>newBuffer\<close>) is of this kind; its source never
  reports the end, so a read past the last byte makes no progress and a call that waits
  for more bytes does not return.
\<close>

definition bufferOver :: "bool \<Rightarrow> byte list \<Rightarrow> reader" where
  "bufferOver e d = \<lparr>rd = \<lparr>pending = [d], eof = e\<rparr>, buf = []\<rparr>"

definition newBuffer :: "byte list \<Rightarrow> reader" where
  "newBuffer d = bufferOver False d"

subsection \<open>readFromBuffer\<close>

text \<open>
  The loop of \<^verbatim>\<open>readFromBuffer\<close>: every round reads into a fresh slice \<^verbatim>\<open>t\<close> of the
  full length \<open>l\<close>, appends what was read to \<^verbatim>\<open>p[:n]\<close> and stops when \<open>n\<close> equals
  \<open>l\<close>. The loop has no other exit than an error, so it is a partial function: \<open>None\<close>
  is a call that does not return.
\<close>

partial_function (option) readLoop ::
  "reader \<Rightarrow> nat \<Rightarrow> byte list \<Rightarrow> nat \<Rightarrow> ((byte list \<times> error option) \<times> reader) option" where
  "readLoop b l p n =
     (case bufRead b l of
        None \<Rightarrow> None
      | Some ((t, err), b') \<Rightarrow>
          (case err of
             Some e \<Rightarrow> Some (([], Some e), b')
           | None \<Rightarrow>
               (let p' = take n p @ t; n' = n + length t
                in if n' = l then Some ((p', None), b') else readLoop b' l p' n')))"

declare readLoop.simps [code]

text \<open>
  \<^verbatim>\<open>readFromBuffer\<close> returns the pair (bytes, error) of the Go function. In the first
  branch \<^verbatim>\<open>p\<close> keeps its length \<open>l\<close> whatever the read copied into it.
\<close>

definition readFromBuffer :: "reader \<Rightarrow> nat \<Rightarrow> ((byte list \<times> error option) \<times> reader) option" where
  "readFromBuffer b l =
     (let p = replicate l 0
      in if Buffered b \<ge> l then
           (case bufRead b l of
              None \<Rightarrow> None
            | Some ((t, err), b') \<Rightarrow> Some ((t @ drop (length t) p, err), b'))
         else readLoop b l p 0)"

text \<open>
  The state of \<open>bufferOver e bs\<close> once its buffer has been filled from the chunk and
  \<open>h\<close> bytes have been handed out. The proofs about decoding a whole frame follow the
  reader through these states.
\<close>

definition afterFill :: "bool \<Rightarrow> byte list \<Rightarrow> nat \<Rightarrow> reader" where
  "afterFill e bs h =
     \<lparr>rd = \<lparr>pending = (if length bs \<le> defaultBufSize then [] else [drop defaultBufSize bs]),
              eof = e\<rparr>,
      buf = drop h (take defaultBufSize bs)\<rparr>"

section \<open>Frames\<close>

abbreviation (input) OpcodeContinuation :: int where "OpcodeContinuation \<equiv> 0"
abbreviation (input) OpcodeText :: int where "OpcodeText \<equiv> 1"
abbreviation (input) OpcodeBinary :: int where "OpcodeBinary \<equiv> 2"
abbreviation (input) OpcodeClose :: int where "OpcodeClose \<equiv> 8"
abbreviation (input) OpcodePing :: int where "OpcodePing \<equiv> 9"
abbreviation (input) OpcodePong :: int where "OpcodePong \<equiv> 10"

record frame =
  fin :: bool
  opcode :: int
  masked :: bool
  lengthF :: "64 word"
  key :: "byte list"
  payload :: "byte list"

text \<open>The zero value \<^verbatim>\<open>&frame{}\<close>.\<close>

definition emptyFrame :: frame where
  "emptyFrame = \<lparr>fin = False, opcode = 0, masked = False, lengthF = 0, key = [], payload = []\<rparr>"

text \<open>
  \<^verbatim>\<open>mask\<close>: \<^verbatim>\<open>p[i] ^= k[i%4]\<close> for every index of \<open>p\<close>. Every caller in the package
  passes a key of four bytes, so the index into \<open>k\<close> is in range.
\<close>

definition maskBytes :: "byte list \<Rightarrow> byte list \<Rightarrow> byte list" where
  "maskBytes p k = map (\<lambda>i. p ! i XOR k ! (i mod 4)) [0..<length p]"

definition opcodeExist :: "int \<Rightarrow> bool" where
  "opcodeExist i =
     (i = OpcodeContinuation \<or> i = OpcodeText \<or> i = OpcodeBinary
      \<or> i = OpcodeClose \<or> i = OpcodePing \<or> i = OpcodePong)"

definition validateKey :: "byte list \<Rightarrow> bool" where
  "validateKey k = (length k = 0 \<or> length k = 4)"

definition validatePayload :: "byte list \<Rightarrow> bool" where
  "validatePayload p = (length p \<le> 9223372036854775807)"

text \<open>\<^verbatim>\<open>fmt.Sprintf("%d", i)\<close>: the decimal digits of an integer.\<close>

fun natDigits :: "nat \<Rightarrow> string" where
  "natDigits n =
     (if n < 10 then [char_of (48 + n)]
      else natDigits (n div 10) @ [char_of (48 + n mod 10)])"

declare natDigits.simps [simp del]

definition sprintd :: "int \<Rightarrow> string" where
  "sprintd i = (if i < 0 then CHR ''-'' # natDigits (nat (- i)) else natDigits (nat i))"

subsection \<open>Decoding\<close>

text \<open>
  Each of the four readers mutates the frame and the reader and returns an error or
  nil; here it returns the error, the frame and the reader. The bytes \<^verbatim>\<open>p[0]\<close> and
  \<^verbatim>\<open>p[1]\<close> exist whenever \<^verbatim>\<open>readFromBuffer\<close> returned without error, since the slice
  it returns then has the length asked for (lemma \<open>readFromBuffer_length\<close> below).
\<close>

definition readInitial :: "frame \<Rightarrow> reader \<Rightarrow> ((error option \<times> frame) \<times> reader) option" where
  "readInitial f b =
     (case readFromBuffer b 2 of
        None \<Rightarrow> None
      | Some ((p, err), b') \<Rightarrow>
          (case err of
             Some e \<Rightarrow> Some ((Some e, f), b')
           | None \<Rightarrow>
               (let f1 = (if drop_bit 7 (p ! 0) = 1 then f\<lparr>fin := True\<rparr> else f)
                in if (p ! 0) AND 112 \<noteq> 0 then
                     Some ((Some (ErrClose \<lparr>Code = CloseProtocolError,
                                            Reason = ''no support for extensions''\<rparr>), f1), b')
                   else
                     (let f2 = f1\<lparr>opcode := uint (p ! 0) AND 15\<rparr>
                      in if \<not> opcodeExist (opcode f2) then
                           Some ((Some (ErrClose \<lparr>Code = CloseProtocolError,
                                    Reason = ''unsupported opcode: '' @ sprintd (opcode f2)\<rparr>), f2), b')
                         else
                           (let f3 = (if drop_bit 7 (p ! 1) = 1 then f2\<lparr>masked := True\<rparr> else f2);
                                f4 = f3\<lparr>lengthF := ucast (p ! 1) AND 127\<rparr>
                            in Some ((None, f4), b'))))))"

text \<open>
  \<^verbatim>\<open>readLength\<close>: the loop \<^verbatim>\<open>f.length = f.length << 8; f.length += uint64(v)\<close> over
  the bytes read is a left fold from 0; then the most significant bit is cleared.
\<close>

definition readLength :: "frame \<Rightarrow> reader \<Rightarrow> ((error option \<times> frame) \<times> reader) option" where
  "readLength f b =
     (if lengthF f \<le> 125 then Some ((None, f), b)
      else
        (let l = (if lengthF f = 127 then 8 else 2)
         in case readFromBuffer b l of
              None \<Rightarrow> None
            | Some ((u, err), b') \<Rightarrow>
                (case err of
                   Some e \<Rightarrow> Some ((Some e, f), b')
                 | None \<Rightarrow>
                     (let len = foldl (\<lambda>acc v. push_bit 8 acc + ucast v) (0 :: 64 word) u
                      in Some ((None, f\<lparr>lengthF := len AND 9223372036854775807\<rparr>), b')))))"

definition readMaskKey :: "frame \<Rightarrow> reader \<Rightarrow> ((error option \<times> frame) \<times> reader) option" where
  "readMaskKey f b =
     (if \<not> masked f then Some ((None, f), b)
      else
        (case readFromBuffer b 4 of
           None \<Rightarrow> None
         | Some ((p, err), b') \<Rightarrow>
             (case err of
                Some e \<Rightarrow> Some ((Some e, f), b')
              | None \<Rightarrow> Some ((None, f\<lparr>key := p\<rparr>), b'))))"

definition readPayload :: "frame \<Rightarrow> reader \<Rightarrow> ((error option \<times> frame) \<times> reader) option" where
  "readPayload f b =
     (case readFromBuffer b (unat (lengthF f)) of
        None \<Rightarrow> None
      | Some ((p, err), b') \<Rightarrow>
          (case err of
             Some e \<Rightarrow> Some ((Some e, f), b')
           | None \<Rightarrow>
               (let p' = (if masked f then maskBytes p (key f) else p)
                in Some ((None, f\<lparr>payload := p'\<rparr>), b'))))"

text \<open>
  \<^verbatim>\<open>newFrame\<close> runs the four readers in order on a zero frame and stops at the first
  error, returning the error in place of the frame.
\<close>

fun runReads ::
  "(frame \<Rightarrow> reader \<Rightarrow> ((error option \<times> frame) \<times> reader) option) list \<Rightarrow> frame \<Rightarrow> reader
     \<Rightarrow> ((error + frame) \<times> reader) option" where
  "runReads [] f b = Some (Inr f, b)"
| "runReads (read # reads) f b =
     (case read f b of
        None \<Rightarrow> None
      | Some ((Some e, f'), b') \<Rightarrow> Some (Inl e, b')
      | Some ((None, f'), b') \<Rightarrow> runReads reads f' b')"

definition newFrame :: "reader \<Rightarrow> ((error + frame) \<times> reader) option" where
  "newFrame b = runReads [readInitial, readLength, readMaskKey, readPayload] emptyFrame b"

subsection \<open>Encoding\<close>

text \<open>
  \<^verbatim>\<open>binary.BigEndian.PutUint64\<close> of the standard library. The \<^verbatim>\<open>toBytes...\<close> helpers
  that write into the two header bytes take the slice and return it updated.
\<close>

definition PutUint64 :: "64 word \<Rightarrow> byte list" where
  "PutUint64 v =
     [ucast (drop_bit 56 v), ucast (drop_bit 48 v), ucast (drop_bit 40 v), ucast (drop_bit 32 v),
      ucast (drop_bit 24 v), ucast (drop_bit 16 v), ucast (drop_bit 8 v), ucast v]"

definition validate :: "frame \<Rightarrow> CloseError option" where
  "validate f =
     (if \<not> opcodeExist (opcode f) then
        Some \<lparr>Code = CloseProtocolError, Reason = ''unsupported opcode: '' @ sprintd (opcode f)\<rparr>
      else if \<not> validateKey (key f) then
        Some \<lparr>Code = CloseProtocolError, Reason = ''masking key must either be 0 or 4 bytes long''\<rparr>
      else if \<not> validatePayload (payload f) then
        Some \<lparr>Code = CloseMessageTooBig, Reason = ''maximum payload data exceeded''\<rparr>
      else None)"

definition toBytesFin :: "frame \<Rightarrow> byte list \<Rightarrow> byte list" where
  "toBytesFin f p = (if fin f then p[0 := 128] else p)"

definition toBytesOpcode :: "frame \<Rightarrow> byte list \<Rightarrow> byte list" where
  "toBytesOpcode f p = p[0 := p ! 0 + word_of_int (opcode f)]"

definition toBytesMasked :: "frame \<Rightarrow> byte list \<Rightarrow> byte list" where
  "toBytesMasked f p = (if length (key f) \<noteq> 0 then p[1 := 128] else p)"

definition toBytesPayloadLength :: "frame \<Rightarrow> byte list \<Rightarrow> byte list" where
  "toBytesPayloadLength f p =
     (let l = length (payload f)
      in if l \<le> 125 then p[1 := p ! 1 + of_nat l]
         else if l \<le> 65535 then p[1 := p ! 1 + 126]
         else if l \<le> 9223372036854775807 then p[1 := p ! 1 + 127]
         else p)"

definition toBytesPayloadLengthExt :: "frame \<Rightarrow> byte list" where
  "toBytesPayloadLengthExt f =
     (let l = length (payload f)
      in if l \<le> 125 then []
         else if l \<le> 65535 then PutUint16 (of_nat l)
         else if l \<le> 9223372036854775807 then PutUint64 (of_nat l)
         else [])"

definition toBytesPayloadData :: "frame \<Rightarrow> byte list" where
  "toBytesPayloadData f =
     (let p = payload f
      in if length (key f) = 4 then maskBytes p (key f) else p)"

definition toBytes :: "frame \<Rightarrow> byte list \<times> error option" where
  "toBytes f =
     (case validate f of
        Some e \<Rightarrow> ([], Some (ErrClose e))
      | None \<Rightarrow>
          (let p = replicate 2 0;
               p = toBytesFin f p;
               p = toBytesOpcode f p;
               p = toBytesMasked f p;
               p = toBytesPayloadLength f p;
               p = p @ toBytesPayloadLengthExt f;
               p = p @ key f;
               p = p @ toBytesPayloadData f
           in (p, None)))"

text \<open>
  The value of a byte sequence read big-endian, as the specification words the extended
  payload length: the first byte is the most significant.
\<close>

primrec bigEndian :: "byte list \<Rightarrow> nat" where
  "bigEndian [] = 0"
| "bigEndian (x # xs) = unat x * 256 ^ length xs + bigEndian xs"

section \<open>The client's opening handshake\<close>

subsection \<open>HTTP headers and strings of the standard library\<close>

text \<open>
  \<^verbatim>\<open>strings.ToLower\<close>: on a string of ASCII bytes the letters \<^verbatim>\<open>A\<close> to \<^verbatim>\<open>Z\<close> are
  mapped byte by byte; on any other string every rune is mapped with
  \<^verbatim>\<open>unicode.ToLower\<close>. The Unicode tables belong to the standard library:
  \<open>unicodeLower\<close> stands for that mapping of a whole string and is a parameter.
\<close>

definition lowerASCII :: "char \<Rightarrow> char" where
  "lowerASCII c =
     (case map_of (zip ''ABCDEFGHIJKLMNOPQRSTUVWXYZ'' ''abcdefghijklmnopqrstuvwxyz'') c of
        None \<Rightarrow> c
      | Some d \<Rightarrow> d)"

definition upperASCII :: "char \<Rightarrow> char" where
  "upperASCII c =
     (case map_of (zip ''abcdefghijklmnopqrstuvwxyz'' ''ABCDEFGHIJKLMNOPQRSTUVWXYZ'') c of
        None \<Rightarrow> c
      | Some d \<Rightarrow> d)"

definition isASCII :: "string \<Rightarrow> bool" where
  "isASCII s = (\<forall>c \<in> set s. (of_char c :: nat) < 128)"

definition ToLower :: "(string \<Rightarrow> string) \<Rightarrow> string \<Rightarrow> string" where
  "ToLower unicodeLower s = (if isASCII s then map lowerASCII s else unicodeLower s)"

text \<open>
  \<^verbatim>\<open>textproto.CanonicalMIMEHeaderKey\<close>: the first letter and every letter after a hyphen
  in upper case, the others in lower case; a key with a byte that is not a token
  character is returned as it is.
\<close>

definition validHeaderFieldByte :: "char \<Rightarrow> bool" where
  "validHeaderFieldByte c =
     (c \<in> set ''0123456789ABCDEFGHIJKLMNOPQRSTUVWXYZabcdefghijklmnopqrstuvwxyz''
      \<or> c \<in> set ''!#$%&*+-.^_`|~'' \<or> c = CHR 0x27)"

fun canonicalFrom :: "bool \<Rightarrow> string \<Rightarrow> string" where
  "canonicalFrom upper [] = []"
| "canonicalFrom upper (c # cs) =
     (if upper then upperASCII c else lowerASCII c) # canonicalFrom (c = CHR ''-'') cs"

definition CanonicalMIMEHeaderKey :: "string \<Rightarrow> string" where
  "CanonicalMIMEHeaderKey s =
     (if \<forall>c \<in> set s. validHeaderFieldByte c then canonicalFrom True s else s)"

text \<open>
  \<^verbatim>\<open>http.Header\<close> is a map from canonical keys to lists of values. \<^verbatim>\<open>Get\<close> returns the
  first value of the key, or the empty string; \<^verbatim>\<open>Set\<close> replaces the values of the key.
\<close>

type_synonym Header = "string \<rightharpoonup> string list"

definition Get :: "Header \<Rightarrow> string \<Rightarrow> string" where
  "Get h k =
     (case h (CanonicalMIMEHeaderKey k) of
        None \<Rightarrow> []
      | Some vs \<Rightarrow> (case vs of [] \<Rightarrow> [] | v # _ \<Rightarrow> v))"

definition Set :: "Header \<Rightarrow> string \<Rightarrow> string \<Rightarrow> Header" where
  "Set h k v = h(CanonicalMIMEHeaderKey k \<mapsto> [v])"

text \<open>The parts of \<^verbatim>\<open>http.Request\<close> and \<^verbatim>\<open>http.Response\<close> that the validation reads.\<close>

record Request =
  RequestHeader :: Header

record Response =
  StatusCode :: int
  Header :: Header
  Request :: Request

datatype OpenError = OpenError string

subsection \<open>Utilities (\<^verbatim>\<open>headerToSlice\<close>, \<^verbatim>\<open>makeAcceptKey\<close>)\<close>

text \<open>\<^verbatim>\<open>strings.Split(v, ",")\<close> and \<^verbatim>\<open>strings.Trim(v, " ")\<close>.\<close>

fun Split :: "string \<Rightarrow> char \<Rightarrow> string list" where
  "Split [] sep = [ [] ]"
| "Split (c # cs) sep =
     (if c = sep then [] # Split cs sep
      else (case Split cs sep of
              [] \<Rightarrow> [ [c] ]
            | w # ws \<Rightarrow> (c # w) # ws))"

definition Trim :: "string \<Rightarrow> char \<Rightarrow> string" where
  "Trim s c = rev (dropWhile (\<lambda>x. x = c) (rev (dropWhile (\<lambda>x. x = c) s)))"

definition headerToSlice :: "string \<Rightarrow> string list" where
  "headerToSlice v = map (\<lambda>w. Trim w (CHR '' '')) (Split v (CHR '',''))"

text \<open>
  \<^verbatim>\<open>makeAcceptKey\<close> is the Base64 encoding of the SHA-1 digest of the key followed by the
  salt. Digest and encoding are collaborators of the package: \<open>digest64\<close> stands for their
  composition.
\<close>

definition wsAcceptSalt :: string where
  "wsAcceptSalt = ''258EAFA5-E914-47DA-95CA-C5AB0DC85B11''"

definition makeAcceptKey :: "(string \<Rightarrow> string) \<Rightarrow> string \<Rightarrow> string" where
  "makeAcceptKey digest64 k = digest64 (k @ wsAcceptSalt)"

subsection \<open>Response validation\<close>

definition validateResponseStatus :: "Response \<Rightarrow> OpenError option" where
  "validateResponseStatus r =
     (if StatusCode r \<noteq> 101 then Some (OpenError ''http status not 101'') else None)"

definition validateResponseUpgradeHeader ::
  "(string \<Rightarrow> string) \<Rightarrow> Response \<Rightarrow> OpenError option" where
  \<open>validateResponseUpgradeHeader unicodeLower r =
     (if ToLower unicodeLower (Get (Header r) ''Upgrade'') \<noteq> ''websocket''
      then Some (OpenError ''"Upgrade" Header should have the value of "websocket"'')
      else None)\<close>

definition validateResponseConnectionHeader ::
  "(string \<Rightarrow> string) \<Rightarrow> Response \<Rightarrow> OpenError option" where
  \<open>validateResponseConnectionHeader unicodeLower r =
     (if ToLower unicodeLower (Get (Header r) ''Connection'') \<noteq> ''upgrade''
      then Some (OpenError ''"Connection" Header should have the value of "upgrade"'')
      else None)\<close>

definition validateResponseSecWebsocketAcceptHeader ::
  "(string \<Rightarrow> string) \<Rightarrow> Response \<Rightarrow> OpenError option" where
  "validateResponseSecWebsocketAcceptHeader digest64 r =
     (if Get (Header r) ''Sec-WebSocket-Accept''
           \<noteq> makeAcceptKey digest64 (Get (RequestHeader (Request r)) ''Sec-Websocket-Key'')
      then Some (OpenError ''challenge key failure'')
      else None)"

definition validateResponseSecWebsocketProtocol :: "Response \<Rightarrow> OpenError option" where
  "validateResponseSecWebsocketProtocol r =
     (let c = headerToSlice (Get (RequestHeader (Request r)) ''Sec-WebSocket-Protocol'');
          s = Get (Header r) ''Sec-WebSocket-Protocol''
      in if length s = 0 then None
         else if \<exists>cv \<in> set c. cv = s then None
         else Some (OpenError
           ''server choose a sub protocol which was not in the list sent by the client''))"

text \<open>
  \<^verbatim>\<open>validateResponse\<close> runs its list of validations in order and returns the first
  error. The list is the one of the source: status, Upgrade, Connection and
  Sec-WebSocket-Accept. \<^verbatim>\<open>Dial\<close> returns the error of \<^verbatim>\<open>validateResponse\<close> when there
  is one and the socket otherwise.
\<close>

fun firstError :: "(Response \<Rightarrow> OpenError option) list \<Rightarrow> Response \<Rightarrow> OpenError option" where
  "firstError [] r = None"
| "firstError (v # vs) r = (case v r of Some err \<Rightarrow> Some err | None \<Rightarrow> firstError vs r)"

definition validateResponse ::
  "(string \<Rightarrow> string) \<Rightarrow> (string \<Rightarrow> string) \<Rightarrow> Response \<Rightarrow> OpenError option" where
  "validateResponse unicodeLower digest64 r =
     firstError [validateResponseStatus,
                 validateResponseUpgradeHeader unicodeLower,
                 validateResponseConnectionHeader unicodeLower,
                 validateResponseSecWebsocketAcceptHeader digest64] r"

subsection \<open>URL parsing\<close>

text \<open>
  The fields of \<^verbatim>\<open>url.URL\<close> that \<^verbatim>\<open>parseURLHost\<close> reads and writes. \<^verbatim>\<open>url.Parse\<close>
  is a collaborator and a parameter of \<^verbatim>\<open>parseURL\<close>.
\<close>

record URL =
  Scheme :: string
  Host :: string

definition schemeValid :: "string \<Rightarrow> bool" where
  "schemeValid s = (s = ''ws'' \<or> s = ''wss'')"

definition isLetter :: "char \<Rightarrow> bool" where
  "isLetter c = (c \<in> set ''ABCDEFGHIJKLMNOPQRSTUVWXYZabcdefghijklmnopqrstuvwxyz'')"

definition isDigit :: "char \<Rightarrow> bool" where
  "isDigit c = (c \<in> set ''0123456789'')"

text \<open>
  The regular expression \<^verbatim>\<open>^([a-zA-Z]+)://\<close>: the leading letters, at least one, followed
  by \<^verbatim>\<open>://\<close>. The result is the submatch, when the expression matches.
\<close>

definition schemeMatch :: "string \<Rightarrow> string option" where
  "schemeMatch u =
     (let s = takeWhile isLetter u; rest = dropWhile isLetter u
      in if s \<noteq> [] \<and> take 3 rest = ''://'' then Some s else None)"

definition parseURLScheme :: "string \<Rightarrow> error option \<times> string" where
  "parseURLScheme u =
     (case schemeMatch u of
        None \<Rightarrow> (None, ''ws://'' @ u)
      | Some s \<Rightarrow>
          (if \<not> schemeValid s then (Some (ErrOther (''invalid scheme: '' @ s)), u)
           else (None, u)))"

text \<open>
  The regular expression \<^verbatim>\<open>:(\d+)\<close>, which is not anchored: it matches when the host
  has, anywhere, a colon followed by a decimal digit.
\<close>

fun portMatch :: "string \<Rightarrow> bool" where
  "portMatch (c # d # cs) = ((c = CHR '':'' \<and> isDigit d) \<or> portMatch (d # cs))"
| "portMatch _ = False"

definition parseURLHost :: "URL \<Rightarrow> error option \<times> URL" where
  "parseURLHost u =
     (if \<not> schemeValid (Scheme u) then (Some (ErrOther (''invalid scheme: '' @ Scheme u)), u)
      else if portMatch (Host u) then (None, u)
      else if Scheme u = ''ws'' then (None, u\<lparr>Host := Host u @ '':22''\<rparr>)
      else if Scheme u = ''wss'' then (None, u\<lparr>Host := Host u @ '':443''\<rparr>)
      else (None, u))"

definition parseURL :: "(string \<Rightarrow> error + URL) \<Rightarrow> string \<Rightarrow> error + URL" where
  "parseURL urlParse u =
     (case parseURLScheme u of
        (Some e, _) \<Rightarrow> Inl e
      | (None, u') \<Rightarrow>
          (case urlParse u' of
             Inl e \<Rightarrow> Inl e
           | Inr l \<Rightarrow>
               (case parseURLHost l of
                  (Some e, _) \<Rightarrow> Inl e
                | (None, l') \<Rightarrow> Inr l')))"

section \<open>The socket\<close>

abbreviation (input) stateOpened :: int where "stateOpened \<equiv> 0"
abbreviation (input) stateClosing :: int where "stateClosing \<equiv> 1"
abbreviation (input) stateClosed :: int where "stateClosed \<equiv> 2"

text \<open>
  The socket as one thread of control sees it. The transport and the user's callbacks are
  the environment: \<open>connCloses\<close> counts the calls of \<^verbatim>\<open>s.conn.Close()\<close>, \<open>written\<close> lists
  the encoded frames handed to the buffered writer, and for each of the four handler
  fields a flag says whether it is set (not nil) and a list records the arguments of its
  calls, in order. A handler is taken to return without calling the socket again. The
  write mutex and the close delay, which only order and delay these steps, are not part
  of the state.
\<close>

record Socket =
  server :: bool
  state :: int
  closeError :: "error option"
  connCloses :: nat
  written :: "byte list list"
  ReadHandlerSet :: bool
  PingHandlerSet :: bool
  PongHandlerSet :: bool
  CloseHandlerSet :: bool
  readCalls :: "(int \<times> byte list) list"
  pingCalls :: "byte list list"
  pongCalls :: "byte list list"
  closeCalls :: "error option list"

text \<open>
  What a call of \<^verbatim>\<open>Write\<close> takes from its environment: the values \<^verbatim>\<open>rand.Uint32()\<close>
  returns, in order, and the result of \<^verbatim>\<open>s.buf.Flush()\<close>.
\<close>

record wenv =
  draws :: "nat \<Rightarrow> 32 word"
  flushErr :: "error option"

definition PutUint32 :: "32 word \<Rightarrow> byte list" where
  "PutUint32 v = [ucast (drop_bit 24 v), ucast (drop_bit 16 v), ucast (drop_bit 8 v), ucast v]"

text \<open>\<^verbatim>\<open>randomByteSlice(i)\<close>: \<open>i\<close> draws, four big-endian bytes each.\<close>

definition randomByteSlice :: "nat \<Rightarrow> (nat \<Rightarrow> 32 word) \<Rightarrow> byte list" where
  "randomByteSlice i ds = concat (map (\<lambda>l. PutUint32 (ds l)) [0..<i])"

definition callReadHandler :: "Socket \<Rightarrow> int \<Rightarrow> byte list \<Rightarrow> Socket" where
  "callReadHandler s oc p =
     (if ReadHandlerSet s then s\<lparr>readCalls := readCalls s @ [(oc, p)]\<rparr> else s)"

definition callPongHandler :: "Socket \<Rightarrow> byte list \<Rightarrow> Socket" where
  "callPongHandler s p = (if PongHandlerSet s then s\<lparr>pongCalls := pongCalls s @ [p]\<rparr> else s)"

definition callCloseHandler :: "Socket \<Rightarrow> error option \<Rightarrow> Socket" where
  "callCloseHandler s e = (if CloseHandlerSet s then s\<lparr>closeCalls := closeCalls s @ [e]\<rparr> else s)"

definition TCPClose :: "Socket \<Rightarrow> Socket" where
  "TCPClose s =
     (if state s = stateClosed then s
      else
        (let s1 = s\<lparr>state := stateClosed\<rparr>;
             s2 = s1\<lparr>connCloses := connCloses s1 + 1\<rparr>
         in callCloseHandler s2 (closeError s2)))"

definition tcpClose :: "Socket \<Rightarrow> Socket" where
  "tcpClose s = (if state s = stateClosed then s else TCPClose s)"

text \<open>The frame \<^verbatim>\<open>Write\<close> builds: final, with a fresh key of four bytes on a client.\<close>

definition writeFrame :: "Socket \<Rightarrow> int \<Rightarrow> byte list \<Rightarrow> wenv \<Rightarrow> frame" where
  "writeFrame s oc p env =
     (let f = emptyFrame\<lparr>fin := True, opcode := oc, payload := p\<rparr>
      in if \<not> server s then f\<lparr>key := randomByteSlice 1 (draws env)\<rparr> else f)"

text \<open>\<^verbatim>\<open>Write\<close> returns its error and the socket after the call.\<close>

definition Write :: "Socket \<Rightarrow> int \<Rightarrow> byte list \<Rightarrow> wenv \<Rightarrow> error option \<times> Socket" where
  "Write s oc p env =
     (if state s = stateClosed then (Some ErrSocketClosed, s)
      else
        (let f = writeFrame s oc p env
         in case toBytes f of
              (b, Some err) \<Rightarrow> (Some err, s)
            | (b, None) \<Rightarrow>
                (let s1 = s\<lparr>written := written s @ [b]\<rparr>
                 in case flushErr env of
                      Some err \<Rightarrow> (None, TCPClose (s1\<lparr>closeError := Some err\<rparr>))
                    | None \<Rightarrow>
                        (None, if opcode f = OpcodeClose then s1\<lparr>state := stateClosing\<rparr>
                               else s1))))"

definition defaultPingHandler :: "Socket \<Rightarrow> byte list \<Rightarrow> wenv \<Rightarrow> Socket" where
  "defaultPingHandler s p env = snd (Write s OpcodePong p env)"

definition callPingHandler :: "Socket \<Rightarrow> byte list \<Rightarrow> wenv \<Rightarrow> Socket" where
  "callPingHandler s p env =
     (if PingHandlerSet s then s\<lparr>pingCalls := pingCalls s @ [p]\<rparr>
      else defaultPingHandler s p env)"

text \<open>\<^verbatim>\<open>CloseWithError\<close> and \<^verbatim>\<open>Close\<close> return nothing: the result is the socket.\<close>

definition CloseWithError :: "Socket \<Rightarrow> CloseError \<Rightarrow> wenv \<Rightarrow> Socket" where
  "CloseWithError s e env =
     (let s1 = s\<lparr>closeError := Some (ErrClose e)\<rparr>;
          b = fst (ToBytes e)
      in snd (Write s1 OpcodeClose b env))"

definition Close :: "Socket \<Rightarrow> wenv \<Rightarrow> Socket" where
  "Close s env = CloseWithError s \<lparr>Code = CloseNormalClosure, Reason = ''normal closure''\<rparr> env"

text \<open>
  The case \<^verbatim>\<open>OpcodeClose\<close> of the switch in \<^verbatim>\<open>read\<close>, on the payload of the frame
  received: the close error is parsed and stored; when the socket is closing the
  transport is closed; otherwise the socket becomes closing, the status code is echoed
  when it is valid, and the transport is closed.
\<close>

definition readClose :: "Socket \<Rightarrow> byte list \<Rightarrow> wenv \<Rightarrow> Socket" where
  "readClose s pl env =
     (let c = fst (NewCloseError pl); cerr = snd (NewCloseError pl);
          s1 = s\<lparr>closeError := Some (ErrClose c)\<rparr>
      in if state s1 = stateClosing then tcpClose s1
         else
           (let s2 = s1\<lparr>state := stateClosing\<rparr>;
                b = (if cerr = None then toBytesCode c else []);
                s3 = snd (Write s2 OpcodeClose b env)
            in tcpClose s3))"

text \<open>
  One round of the loop of \<^verbatim>\<open>read\<close>, given what \<^verbatim>\<open>newFrame\<close> returned: the result
  says whether the loop goes on. A round calls \<^verbatim>\<open>Write\<close> at most once, so it takes one
  environment.
\<close>

definition readStep :: "Socket \<Rightarrow> error + frame \<Rightarrow> wenv \<Rightarrow> bool \<times> Socket" where
  "readStep s r env =
     (if state s = stateClosed then (False, s)
      else
        (case r of
           Inl err \<Rightarrow>
             (case err of
                ErrClose c \<Rightarrow> (False, CloseWithError s c env)
              | EOF \<Rightarrow>
                  (False, TCPClose (s\<lparr>closeError :=
                     Some (ErrClose \<lparr>Code = CloseAbnormalClosure, Reason = ''abnormal closure''\<rparr>)\<rparr>))
              | ErrNetOp _ \<Rightarrow>
                  (False, TCPClose (s\<lparr>closeError :=
                     Some (ErrClose \<lparr>Code = CloseAbnormalClosure, Reason = ''abnormal closure''\<rparr>)\<rparr>))
              | _ \<Rightarrow>
                  (False, CloseWithError s
                     \<lparr>Code = CloseProtocolError, Reason = ''protocol error''\<rparr> env))
         | Inr f \<Rightarrow>
             (if server s \<and> \<not> masked f then
                (False, CloseWithError s
                   \<lparr>Code = CloseProtocolError, Reason = ''expected payload to be masked''\<rparr> env)
              else if \<not> server s \<and> masked f then
                (False, CloseWithError s
                   \<lparr>Code = CloseProtocolError, Reason = ''expected payload to not be masked''\<rparr> env)
              else if opcode f = OpcodeText \<or> opcode f = OpcodeBinary then
                (True, callReadHandler s (opcode f) (payload f))
              else if opcode f = OpcodePing then (True, callPingHandler s (payload f) env)
              else if opcode f = OpcodePong then (True, callPongHandler s (payload f))
              else if opcode f = OpcodeClose then (False, readClose s (payload f) env)
              else (True, s))))"

text \<open>
  \<^verbatim>\<open>read\<close> (and \<^verbatim>\<open>Listen\<close>, which calls it) over the results of the successive calls
  of \<^verbatim>\<open>newFrame\<close>. When the results run out the loop is waiting for the next frame.
\<close>

fun read :: "Socket \<Rightarrow> ((error + frame) \<times> wenv) list \<Rightarrow> Socket" where
  "read s [] = s"
| "read s ((r, env) # rest) =
     (case readStep s r env of
        (True, s') \<Rightarrow> read s' rest
      | (False, s') \<Rightarrow> s')"

definition Listen :: "Socket \<Rightarrow> ((error + frame) \<times> wenv) list \<Rightarrow> Socket" where
  "Listen s inputs = read s inputs"

text \<open>The public operations on a socket, and a sequence of them.\<close>

datatype sockOp =
    OpWrite int "byte list" wenv
  | OpTCPClose
  | OpClose wenv
  | OpCloseWithError CloseError wenv
  | OpListen "((error + frame) \<times> wenv) list"

fun exec :: "Socket \<Rightarrow> sockOp \<Rightarrow> Socket" where
  "exec s (OpWrite oc p env) = snd (Write s oc p env)"
| "exec s OpTCPClose = TCPClose s"
| "exec s (OpClose env) = Close s env"
| "exec s (OpCloseWithError e env) = CloseWithError s e env"
| "exec s (OpListen inputs) = Listen s inputs"

definition run :: "Socket \<Rightarrow> sockOp list \<Rightarrow> Socket" where
  "run s ops = foldl exec s ops"

text \<open>The socket \<^verbatim>\<open>Dial\<close> and \<^verbatim>\<open>Upgrade\<close> return, with the handlers the user then sets.\<close>

definition newSocket :: "bool \<Rightarrow> bool \<Rightarrow> bool \<Rightarrow> bool \<Rightarrow> bool \<Rightarrow> Socket" where
  "newSocket srv rh pih poh ch =
     \<lparr>server = srv, state = stateOpened, closeError = None, connCloses = 0, written = [],
      ReadHandlerSet = rh, PingHandlerSet = pih, PongHandlerSet = poh, CloseHandlerSet = ch,
      readCalls = [], pingCalls = [], pongCalls = [], closeCalls = []\<rparr>"

text \<open>
  The relation between a socket before and after any step, in which the invariant about
  teardown is stated: a closed socket stays closed and neither closes the transport nor
  calls the close handler again; a socket that is not closed either stays so, with the
  transport and the close handler untouched, or is closed by exactly one
  \<^verbatim>\<open>s.conn.Close()\<close> and at most one call of the close handler.
\<close>

definition tornDownOnce :: "Socket \<Rightarrow> Socket \<Rightarrow> bool" where
  "tornDownOnce s s' =
     (if state s = stateClosed then
        state s' = stateClosed \<and> closeCalls s' = closeCalls s \<and> connCloses s' = connCloses s
      else
        (state s' \<noteq> stateClosed \<and> closeCalls s' = closeCalls s \<and> connCloses s' = connCloses s)
        \<or> (state s' = stateClosed \<and> connCloses s' = connCloses s + 1
            \<and> (closeCalls s' = closeCalls s \<or> (\<exists>e. closeCalls s' = closeCalls s @ [e]))))"

section \<open>Encoding with slices that share memory\<close>

text \<open>
  A Go slice refers to a backing array, and \<^verbatim>\<open>mask\<close> writes into the array of the slice
  it is given. To say that encoding leaves the caller's payload alone, the arrays are
  made explicit: a heap maps each address to the contents of the array there, and
  \<open>nextAddr\<close> is the first address not yet allocated. A slice is the address of its
  array and covers the whole of it. The frame holds its key and its payload by
  reference.
\<close>

type_synonym addr = nat

record heap =
  cells :: "addr \<Rightarrow> byte list"
  nextAddr :: addr

record frameRef =
  rfin :: bool
  ropcode :: int
  rmasked :: bool
  rlength :: "64 word"
  rkey :: addr
  rpayload :: addr

text \<open>The frame as a value: what the fields of the frame refer to in the heap.\<close>

definition frameAt :: "heap \<Rightarrow> frameRef \<Rightarrow> frame" where
  "frameAt h r =
     \<lparr>fin = rfin r, opcode = ropcode r, masked = rmasked r, lengthF = rlength r,
      key = cells h (rkey r), payload = cells h (rpayload r)\<rparr>"

text \<open>
  \<^verbatim>\<open>make\<close> and \<^verbatim>\<open>append\<close> on a slice that is full give a new array; \<open>store\<close> is an
  assignment through a slice.
\<close>

definition alloc :: "heap \<Rightarrow> byte list \<Rightarrow> addr \<times> heap" where
  "alloc h bs =
     (nextAddr h, h\<lparr>cells := (cells h)(nextAddr h := bs), nextAddr := Suc (nextAddr h)\<rparr>)"

definition store :: "heap \<Rightarrow> addr \<Rightarrow> byte list \<Rightarrow> heap" where
  "store h a bs = h\<lparr>cells := (cells h)(a := bs)\<rparr>"

text \<open>
  \<^verbatim>\<open>mask(p, k)\<close> in place: \<^verbatim>\<open>for i := range p { p[i] ^= k[i%4] }\<close>, one index after
  the other, each step reading the heap the step before left.
\<close>

fun maskLoop :: "addr \<Rightarrow> addr \<Rightarrow> nat list \<Rightarrow> heap \<Rightarrow> heap" where
  "maskLoop p k [] h = h"
| "maskLoop p k (i # is) h =
     maskLoop p k is (store h p ((cells h p)[i := cells h p ! i XOR cells h k ! (i mod 4)]))"

definition maskInPlace :: "heap \<Rightarrow> addr \<Rightarrow> addr \<Rightarrow> heap" where
  "maskInPlace h p k = maskLoop p k [0..<length (cells h p)] h"

text \<open>
  \<^verbatim>\<open>toBytesPayloadData\<close>: the payload is copied into a new array
  (\<^verbatim>\<open>append([]byte{}, f.payload...)\<close>) and the copy is masked.
\<close>

definition toBytesPayloadDataH :: "heap \<Rightarrow> frameRef \<Rightarrow> addr \<times> heap" where
  "toBytesPayloadDataH h f =
     (let (p, h1) = alloc h (cells h (rpayload f))
      in if length (cells h1 (rkey f)) = 4 then (p, maskInPlace h1 p (rkey f)) else (p, h1))"

text \<open>
  \<^verbatim>\<open>toBytes\<close> on the heap: the two header bytes are written into a new array \<open>p\<close>, and
  each \<^verbatim>\<open>append\<close> gives the next array. The result is the address of the encoding, or
  the error of \<^verbatim>\<open>validate\<close>.
\<close>

definition toBytesH :: "heap \<Rightarrow> frameRef \<Rightarrow> (addr option \<times> error option) \<times> heap" where
  "toBytesH h f =
     (case validate (frameAt h f) of
        Some e \<Rightarrow> ((None, Some (ErrClose e)), h)
      | None \<Rightarrow>
          (let (p, h) = alloc h (replicate 2 0);
               h = store h p (toBytesFin (frameAt h f) (cells h p));
               h = store h p (toBytesOpcode (frameAt h f) (cells h p));
               h = store h p (toBytesMasked (frameAt h f) (cells h p));
               h = store h p (toBytesPayloadLength (frameAt h f) (cells h p));
               (p, h) = alloc h (cells h p @ toBytesPayloadLengthExt (frameAt h f));
               (p, h) = alloc h (cells h p @ cells h (rkey f));
               (d, h) = toBytesPayloadDataH h f;
               (p, h) = alloc h (cells h p @ cells h d)
           in ((Some p, None), h)))"

section \<open>Close error codec: properties\<close>

lemma ToBytes_valid:
  "closeErrorExist (Code c) \<Longrightarrow> ToBytes c = (toBytesCode c @ stringBytes (Reason c), None)"
  by (subst ToBytes.simps) simp

lemma ToBytes_fallback_bytes:
  "fst (ToBytes \<lparr>Code = CloseNoStatusReceived, Reason = ''no status recieved''\<rparr>)
     = [3, 237] @ stringBytes ''no status recieved''"
  by (subst ToBytes.simps) (simp add: closeErrorExist_def toBytesCode_def PutUint16_def)

lemma ToBytes_invalid:
  "\<not> closeErrorExist (Code c) \<Longrightarrow>
     ToBytes c = ([3, 237] @ stringBytes ''no status recieved'', Some ErrInvalidCode)"
  using ToBytes_fallback_bytes by (subst ToBytes.simps) (simp add: Let_def)

text \<open>
  C2 (as amended). For every CloseError whose code is not one of the twelve recognised
  codes, ToBytes signals the error "invalid error code" and still returns bytes: the
  big-endian code 1005, that is 0x03 0xED, followed by the bytes of the reason string as
  the program spells it, "no status recieved".
\<close>

theorem ToBytes_unknown_code:
  "\<not> closeErrorExist (Code c) \<Longrightarrow>
     ToBytes c = ([0x03, 0xED] @ stringBytes ''no status recieved'', Some ErrInvalidCode)"
  by (rule ToBytes_invalid)

theorem ToBytes_unknown_code_witness:
  "\<not> closeErrorExist (Code \<lparr>Code = 0, Reason = ''bad''\<rparr>)
   \<and> ToBytes \<lparr>Code = 0, Reason = ''bad''\<rparr>
       = ([3, 237, 110, 111, 32, 115, 116, 97, 116, 117, 115, 32,
           114, 101, 99, 105, 101, 118, 101, 100], Some ErrInvalidCode)"
proof -
  have h: "\<not> closeErrorExist (Code \<lparr>Code = 0, Reason = ''bad''\<rparr>)"
    by (simp add: closeErrorExist_def)
  show ?thesis
    using h ToBytes_unknown_code [OF h] by (simp add: stringBytes_def)
qed

text \<open>
  C2 as the specification words it fails: the reason bytes the program emits are not
  those of "no status received".
\<close>

theorem ToBytes_unknown_code_counterexample:
  "ToBytes \<lparr>Code = 0, Reason = ''bad''\<rparr>
     \<noteq> ([0x03, 0xED] @ stringBytes ''no status received'', Some ErrInvalidCode)"
proof -
  have "ToBytes \<lparr>Code = 0, Reason = ''bad''\<rparr>
          = ([3, 237] @ stringBytes ''no status recieved'', Some ErrInvalidCode)"
    by (rule ToBytes_invalid) (simp add: closeErrorExist_def)
  then show ?thesis by (simp add: stringBytes_def)
qed

section \<open>The buffered reader: properties\<close>

lemma srcRead_le: "srcRead s n = Some ((d, e), s') \<Longrightarrow> length d \<le> n"
  by (auto simp: srcRead_def split: list.splits if_splits)

lemma bufRead_le: "bufRead b n = Some ((t, e), b') \<Longrightarrow> length t \<le> n"
  by (auto simp: bufRead_def split: if_splits option.splits dest: srcRead_le)

lemma readLoop_length_aux:
  assumes "readLoop b l p n = Some y"
  shows "n \<le> length p \<longrightarrow> (\<forall>q b'. y = ((q, None), b') \<longrightarrow> length q = l)"
proof (rule readLoop.raw_induct
    [where P = "\<lambda>b l p n y. n \<le> length p \<longrightarrow> (\<forall>q b'. y = ((q, None), b') \<longrightarrow> length q = l)",
     OF _ assms])
  fix f :: "reader \<Rightarrow> nat \<Rightarrow> byte list \<Rightarrow> nat \<Rightarrow> ((byte list \<times> error option) \<times> reader) option"
  fix b l p n y
  assume IH: "\<And>b l p n y. f b l p n = Some y \<Longrightarrow>
                 n \<le> length p \<longrightarrow> (\<forall>q b'. y = ((q, None), b') \<longrightarrow> length q = l)"
  assume body: "(case bufRead b l of
        None \<Rightarrow> None
      | Some ((t, err), b') \<Rightarrow>
          (case err of
             Some e \<Rightarrow> Some (([], Some e), b')
           | None \<Rightarrow>
               (let p' = take n p @ t; n' = n + length t
                in if n' = l then Some ((p', None), b') else f b' l p' n'))) = Some y"
  show "n \<le> length p \<longrightarrow> (\<forall>q b'. y = ((q, None), b') \<longrightarrow> length q = l)"
  proof (intro impI allI)
    fix q b'
    assume n: "n \<le> length p" and y: "y = ((q, None), b')"
    from body y obtain t b1 where r: "bufRead b l = Some ((t, None), b1)"
      and rest: "(if n + length t = l then Some ((take n p @ t, None), b1)
                  else f b1 l (take n p @ t) (n + length t)) = Some y"
      by (auto simp: Let_def split: option.splits prod.splits)
    show "length q = l"
    proof (cases "n + length t = l")
      case True
      with rest y n show ?thesis by auto
    next
      case False
      with rest have "f b1 l (take n p @ t) (n + length t) = Some y"
        by simp
      from IH [OF this] n y show ?thesis by simp
    qed
  qed
qed

lemma readLoop_length:
  "readLoop b l p n = Some ((q, None), b') \<Longrightarrow> n \<le> length p \<Longrightarrow> length q = l"
  using readLoop_length_aux by blast

lemma readFromBuffer_length:
  assumes "readFromBuffer b l = Some ((p, None), b')"
  shows "length p = l"
proof (cases "Buffered b \<ge> l")
  case True
  with assms obtain t where t: "bufRead b l = Some ((t, None), b')"
    and p: "p = t @ drop (length t) (replicate l 0)"
    by (auto simp: readFromBuffer_def Let_def split: option.splits prod.splits)
  from bufRead_le [OF t] p show ?thesis by simp
next
  case False
  with assms have "readLoop b l (replicate l 0) 0 = Some ((p, None), b')"
    by (simp add: readFromBuffer_def Let_def)
  then show ?thesis by (rule readLoop_length) simp
qed

text \<open>What the reader does when enough is buffered.\<close>

lemma readFromBuffer_buffered:
  assumes "l \<le> Buffered b"
  shows "readFromBuffer b l = Some ((take l (buf b), None), b\<lparr>buf := drop l (buf b)\<rparr>)"
proof (cases "l = 0")
  case True
  then show ?thesis by (simp add: readFromBuffer_def bufRead_def)
next
  case False
  with assms have "buf b \<noteq> []" by (auto simp: Buffered_def)
  with assms False show ?thesis
    by (simp add: readFromBuffer_def bufRead_def Buffered_def)
qed

lemma readFromBuffer_empty_buffer:
  assumes "buf b = []" and "0 < l" and "pending (rd b) = c # cs" and "l \<le> length c"
  shows "readFromBuffer b l =
           Some ((take l c, None),
             (if l \<ge> defaultBufSize
              then b\<lparr>rd := (rd b)\<lparr>pending := (if length c \<le> l then cs else drop l c # cs)\<rparr>\<rparr>
              else b\<lparr>rd := (rd b)\<lparr>pending := (if length c \<le> defaultBufSize then cs
                                                else drop defaultBufSize c # cs)\<rparr>,
                     buf := drop l (take defaultBufSize c)\<rparr>))"
proof -
  from assms have nb: "\<not> l \<le> Buffered b" by (simp add: Buffered_def)
  from assms have c: "c \<noteq> []" by auto
  show ?thesis
    using assms c nb
    by (subst readFromBuffer_def, simp only: Let_def nb if_False, subst readLoop.simps)
       (auto simp: bufRead_def srcRead_def Let_def take_take min_def)
qed

lemma readFromBuffer_exact_rest:
  assumes "buf b \<noteq> []" and "length (buf b) < l" and "pending (rd b) = c # cs"
    and "length (buf b) + length c = l"
  shows "readFromBuffer b l =
           Some ((buf b @ c, None), b\<lparr>rd := (rd b)\<lparr>pending := cs\<rparr>, buf := []\<rparr>)"
proof -
  from assms have nb: "\<not> l \<le> Buffered b" by (simp add: Buffered_def)
  from assms have c: "c \<noteq> []" "0 < l" "length c \<le> l" "length c < l" by auto
  have step1: "bufRead b l = Some ((buf b, None), b\<lparr>buf := []\<rparr>)"
    using assms c by (simp add: bufRead_def)
  have step2: "bufRead (b\<lparr>buf := []\<rparr>) l = Some ((c, None), b\<lparr>rd := (rd b)\<lparr>pending := cs\<rparr>, buf := []\<rparr>)"
    using assms c by (auto simp: bufRead_def srcRead_def)
  show ?thesis
    using assms c nb
    apply (subst readFromBuffer_def, simp only: Let_def nb if_False)
    apply (subst readLoop.simps, simp only: step1)
    apply (simp add: Let_def)
    apply (subst readLoop.simps, simp only: step2)
    apply (simp add: Let_def)
    done
qed

text \<open>
  C4. The claim: \<^verbatim>\<open>readFromBuffer(source, l)\<close> returns the first \<open>l\<close> bytes whenever the
  source delivers at least \<open>l\<close> bytes, however they are cut into chunks. The program at
  \<open>l = 2\<close> on a source that delivers one byte and then two: the first round reads one
  byte, the second reads into a fresh slice of length 2 and so takes both remaining
  bytes, the count is 3 and never equals 2. On a stream that then ends the call returns
  no bytes and \<^verbatim>\<open>io.EOF\<close>; on a connection that stays open it never returns, and
  neither does the decoding of a frame whose two header bytes arrive in two chunks.
\<close>

theorem readFromBuffer_overshoots:
  "readFromBuffer \<lparr>rd = \<lparr>pending = [ [1], [2, 3] ], eof = True\<rparr>, buf = []\<rparr> 2
     = Some (([], Some EOF), \<lparr>rd = \<lparr>pending = [], eof = True\<rparr>, buf = []\<rparr>)
   \<and> readFromBuffer \<lparr>rd = \<lparr>pending = [ [1], [2, 3] ], eof = False\<rparr>, buf = []\<rparr> 2 = None
   \<and> newFrame \<lparr>rd = \<lparr>pending = [ [129], [2, 104, 105] ], eof = False\<rparr>, buf = []\<rparr> = None"
  by code_simp

section \<open>Payload length decoding: properties\<close>

lemma unat_byte_less: "unat (x :: byte) < 256"
  using unsigned_less [of x, where 'a = nat] by simp

lemma bigEndian_bound: "bigEndian u < 256 ^ length u"
proof (induction u)
  case Nil
  show ?case by simp
next
  case (Cons x xs)
  define K :: nat where "K = 256 ^ length xs"
  have "unat x \<le> 255" using unat_byte_less [of x] by simp
  then have "unat x * K \<le> 255 * K" by (rule mult_right_mono) simp
  moreover have "bigEndian xs < K" using Cons by (simp add: K_def)
  ultimately have "unat x * K + bigEndian xs < 256 * K" by linarith
  then show ?case by (simp add: K_def)
qed

lemma unat_shift_add:
  "unat (push_bit 8 (a :: 64 word) + ucast (x :: byte)) = (unat a * 256 + unat x) mod 2 ^ 64"
proof -
  have "unat x < 2 ^ 64" using unat_byte_less [of x] by simp
  then have "unat (ucast x :: 64 word) = unat x"
    by (simp add: unsigned_ucast_eq take_bit_nat_eq_self)
  then show ?thesis
    by (simp add: push_bit_eq_mult unat_word_ariths mod_simps)
qed

lemma foldl_bigEndian:
  "unat (foldl (\<lambda>acc v. push_bit 8 acc + ucast v) (a :: 64 word) (u :: byte list))
     = (unat a * 256 ^ length u + bigEndian u) mod 2 ^ 64"
proof (induction u arbitrary: a)
  case Nil
  have "unat a < 2 ^ 64" using unsigned_less [of a, where 'a = nat] by simp
  then show ?case by simp
next
  case (Cons x xs)
  have "unat (foldl (\<lambda>acc v. push_bit 8 acc + ucast v) a (x # xs))
          = (unat (push_bit 8 a + ucast x) * 256 ^ length xs + bigEndian xs) mod 2 ^ 64"
    using Cons.IH by simp
  also have "\<dots> = ((unat a * 256 + unat x) mod 2 ^ 64 * 256 ^ length xs + bigEndian xs) mod 2 ^ 64"
    by (simp only: unat_shift_add)
  also have "\<dots> = ((unat a * 256 + unat x) * 256 ^ length xs + bigEndian xs) mod 2 ^ 64"
    by (metis mod_add_left_eq mod_mult_left_eq)
  also have "\<dots> = (unat a * 256 ^ length (x # xs) + bigEndian (x # xs)) mod 2 ^ 64"
    by (simp add: algebra_simps)
  finally show ?case .
qed

lemma unat_clear_msb:
  "unat ((w :: 64 word) AND 9223372036854775807) = unat w mod 2 ^ 63"
proof -
  have "w AND 9223372036854775807 = take_bit 63 w"
    by (simp add: take_bit_eq_mask mask_eq_exp_minus_1)
  then have "unat (w AND 9223372036854775807) = unat (take_bit 63 w)" by simp
  also have "\<dots> = take_bit 63 (unat w)" by (rule unsigned_take_bit_eq)
  also have "\<dots> = unat w mod 2 ^ 63" by (rule take_bit_eq_mod)
  finally show ?thesis .
qed

lemma readInitial_marker:
  assumes "readInitial f b = Some ((None, f'), b')"
  shows "\<exists>p. readFromBuffer b 2 = Some ((p, None), b') \<and> length p = 2
             \<and> lengthF f' = ucast (p ! 1) AND 127"
proof -
  from assms obtain p where p: "readFromBuffer b 2 = Some ((p, None), b')"
    by (auto simp: readInitial_def Let_def split: option.splits prod.splits if_splits)
  from assms p have "lengthF f' = ucast (p ! 1) AND 127"
    by (auto simp: readInitial_def Let_def split: if_splits)
  with p readFromBuffer_length [OF p] show ?thesis by blast
qed

lemma and_127_le: "(ucast (x :: byte) AND 127 :: 64 word) \<le> 127"
  by (rule word_and_le1)

lemma readLength_small:
  "lengthF f \<le> 125 \<Longrightarrow> readLength f b = Some ((None, f), b)"
  by (simp add: readLength_def)

lemma readLength_ext:
  assumes big: "\<not> lengthF f \<le> 125"
    and rd: "readFromBuffer b (if lengthF f = 127 then 8 else 2) = Some ((u, None), b')"
  shows "\<exists>f'. readLength f b = Some ((None, f'), b') \<and> f' = f\<lparr>lengthF := lengthF f'\<rparr>
            \<and> unat (lengthF f') = bigEndian u mod 2 ^ 63"
proof -
  let ?len = "foldl (\<lambda>acc v. push_bit 8 acc + ucast v) (0 :: 64 word) u"
  let ?f' = "f\<lparr>lengthF := ?len AND 9223372036854775807\<rparr>"
  have r: "readLength f b = Some ((None, ?f'), b')"
    using big rd by (simp add: readLength_def Let_def)
  have lu: "length u \<le> 8" using readFromBuffer_length [OF rd] by (simp split: if_splits)
  have "bigEndian u < 256 ^ length u" by (rule bigEndian_bound)
  also have "(256 :: nat) ^ length u \<le> 256 ^ 8" using lu by (rule power_increasing) simp
  finally have "bigEndian u < 2 ^ 64" by simp
  then have "unat ?len = bigEndian u" by (simp add: foldl_bigEndian)
  then have "unat (lengthF ?f') = bigEndian u mod 2 ^ 63" by (simp add: unat_clear_msb)
  with r show ?thesis by (intro exI [of _ ?f']) simp
qed

lemma bigEndian_two: "bigEndian [x, y] < 2 ^ 63"
proof -
  have "bigEndian [x, y] < 256 ^ length [x, y]" by (rule bigEndian_bound)
  then show ?thesis by simp
qed

text \<open>
  C5. In frame decoding the length marker is the low seven bits of the second header
  byte, so at most 127. A marker of at most 125 is the payload length and nothing more is
  read. With marker 126 two further bytes are read and the length is their big-endian
  value. With marker 127 eight further bytes are read and the length is their big-endian
  value with bit 63 cleared, that is modulo \<open>2 ^ 63\<close>. The witness is the specification's
  vectors: \<open>0xFF 0xFF\<close> gives 65535 and eight \<open>0xFF\<close> bytes give \<open>2 ^ 63 - 1\<close>.
\<close>

theorem readLength_decodes:
  "(readInitial f0 b0 = Some ((None, f), b) \<longrightarrow>
      (\<exists>p. readFromBuffer b0 2 = Some ((p, None), b) \<and> lengthF f = ucast (p ! 1) AND 127)
      \<and> lengthF f \<le> 127)
   \<and> (lengthF f \<le> 125 \<longrightarrow> readLength f b = Some ((None, f), b))
   \<and> (lengthF f = 126 \<and> readFromBuffer b 2 = Some ((u, None), b') \<longrightarrow>
        length u = 2
        \<and> (\<exists>f'. readLength f b = Some ((None, f'), b') \<and> f' = f\<lparr>lengthF := lengthF f'\<rparr>
               \<and> unat (lengthF f') = bigEndian u))
   \<and> (lengthF f = 127 \<and> readFromBuffer b 8 = Some ((u, None), b') \<longrightarrow>
        length u = 8
        \<and> (\<exists>f'. readLength f b = Some ((None, f'), b') \<and> f' = f\<lparr>lengthF := lengthF f'\<rparr>
               \<and> unat (lengthF f') = bigEndian u mod 2 ^ 63))"
proof (intro conjI impI)
  assume a: "readInitial f0 b0 = Some ((None, f), b)"
  from readInitial_marker [OF a]
  show "\<exists>p. readFromBuffer b0 2 = Some ((p, None), b) \<and> lengthF f = ucast (p ! 1) AND 127"
    by blast
  from readInitial_marker [OF a] show "lengthF f \<le> 127"
    using and_127_le by auto
next
  assume "lengthF f \<le> 125"
  then show "readLength f b = Some ((None, f), b)" by (rule readLength_small)
next
  assume a: "lengthF f = 126 \<and> readFromBuffer b 2 = Some ((u, None), b')"
  then show "length u = 2" using readFromBuffer_length by blast
  then obtain x y where u: "u = [x, y]"
    by (cases u; cases "tl u") auto
  from a have big: "\<not> lengthF f \<le> 125" by simp
  from a have rd: "readFromBuffer b (if lengthF f = 127 then 8 else 2) = Some ((u, None), b')"
    by simp
  from readLength_ext [OF big rd] u bigEndian_two [of x y]
  show "\<exists>f'. readLength f b = Some ((None, f'), b') \<and> f' = f\<lparr>lengthF := lengthF f'\<rparr>
               \<and> unat (lengthF f') = bigEndian u"
    by auto
next
  assume a: "lengthF f = 127 \<and> readFromBuffer b 8 = Some ((u, None), b')"
  then show "length u = 8" using readFromBuffer_length by blast
  from a have big: "\<not> lengthF f \<le> 125" by simp
  from a have rd: "readFromBuffer b (if lengthF f = 127 then 8 else 2) = Some ((u, None), b')"
    by simp
  from readLength_ext [OF big rd]
  show "\<exists>f'. readLength f b = Some ((None, f'), b') \<and> f' = f\<lparr>lengthF := lengthF f'\<rparr>
               \<and> unat (lengthF f') = bigEndian u mod 2 ^ 63"
    by blast
qed


lemma readFromBuffer_ff2:
  "readFromBuffer (newBuffer [255, 255]) 2
     = Some (([255, 255], None), \<lparr>rd = \<lparr>pending = [], eof = False\<rparr>, buf = []\<rparr>)"
  by (simp add: readFromBuffer_empty_buffer newBuffer_def bufferOver_def)

lemma readFromBuffer_ff8:
  "readFromBuffer (newBuffer [255, 255, 255, 255, 255, 255, 255, 255]) 8
     = Some (([255, 255, 255, 255, 255, 255, 255, 255], None),
             \<lparr>rd = \<lparr>pending = [], eof = False\<rparr>, buf = []\<rparr>)"
  by (simp add: readFromBuffer_empty_buffer newBuffer_def bufferOver_def)

lemma readInitial_text_126:
  "readInitial emptyFrame (newBuffer [129, 126, 255, 255])
     = Some ((None, emptyFrame\<lparr>fin := True, opcode := 1, lengthF := 126\<rparr>),
             \<lparr>rd = \<lparr>pending = [], eof = False\<rparr>, buf = [255, 255]\<rparr>)"
  by (simp add: readInitial_def readFromBuffer_empty_buffer newBuffer_def bufferOver_def emptyFrame_def
      opcodeExist_def drop_bit_eq_div)

theorem readLength_decodes_witness:
  "readInitial emptyFrame (newBuffer [129, 126, 255, 255])
     = Some ((None, emptyFrame\<lparr>fin := True, opcode := 1, lengthF := 126\<rparr>),
             \<lparr>rd = \<lparr>pending = [], eof = False\<rparr>, buf = [255, 255]\<rparr>)
   \<and> lengthF (emptyFrame\<lparr>fin := True, opcode := 1, lengthF := 126\<rparr>) \<le> 127
   \<and> readLength (emptyFrame\<lparr>lengthF := 125\<rparr>) (newBuffer [255, 255])
       = Some ((None, emptyFrame\<lparr>lengthF := 125\<rparr>), newBuffer [255, 255])
   \<and> readLength (emptyFrame\<lparr>lengthF := 126\<rparr>) (newBuffer [255, 255])
       = Some ((None, emptyFrame\<lparr>lengthF := 65535\<rparr>),
               \<lparr>rd = \<lparr>pending = [], eof = False\<rparr>, buf = []\<rparr>)
   \<and> readLength (emptyFrame\<lparr>lengthF := 127\<rparr>)
         (newBuffer [255, 255, 255, 255, 255, 255, 255, 255])
       = Some ((None, emptyFrame\<lparr>lengthF := 9223372036854775807\<rparr>),
               \<lparr>rd = \<lparr>pending = [], eof = False\<rparr>, buf = []\<rparr>)"
proof -
  let ?e = "\<lparr>rd = \<lparr>pending = [], eof = False\<rparr>, buf = []\<rparr>"
  have w64: "\<And>(w :: 64 word) n. unat w = n \<Longrightarrow> n < 2 ^ 64 \<Longrightarrow> w = of_nat n"
    by auto
  note t0 = readLength_decodes
    [of emptyFrame "newBuffer [129, 126, 255, 255]"
        "emptyFrame\<lparr>fin := True, opcode := 1, lengthF := 126\<rparr>"
        "\<lparr>rd = \<lparr>pending = [], eof = False\<rparr>, buf = [255, 255]\<rparr>"]
  note t1 = readLength_decodes
    [of _ _ "emptyFrame\<lparr>lengthF := 125\<rparr>" "newBuffer [255, 255]"]
  note t2 = readLength_decodes
    [of _ _ "emptyFrame\<lparr>lengthF := 126\<rparr>" "newBuffer [255, 255]" "[255, 255]" ?e]
  note t3 = readLength_decodes
    [of _ _ "emptyFrame\<lparr>lengthF := 127\<rparr>" "newBuffer [255, 255, 255, 255, 255, 255, 255, 255]"
        "[255, 255, 255, 255, 255, 255, 255, 255]" ?e]
  have c0: "lengthF (emptyFrame\<lparr>fin := True, opcode := 1, lengthF := 126\<rparr>) \<le> 127"
    using t0 readInitial_text_126 by blast
  have c1: "readLength (emptyFrame\<lparr>lengthF := 125\<rparr>) (newBuffer [255, 255])
       = Some ((None, emptyFrame\<lparr>lengthF := 125\<rparr>), newBuffer [255, 255])"
    using t1 by simp
  from t2 readFromBuffer_ff2 obtain f2 where
    f2: "readLength (emptyFrame\<lparr>lengthF := 126\<rparr>) (newBuffer [255, 255]) = Some ((None, f2), ?e)"
      "f2 = emptyFrame\<lparr>lengthF := 126\<rparr>\<lparr>lengthF := lengthF f2\<rparr>"
      "unat (lengthF f2) = bigEndian [255, 255]"
    by auto
  from f2(3) have "lengthF f2 = 65535" by (auto dest: w64)
  with f2 have c2: "readLength (emptyFrame\<lparr>lengthF := 126\<rparr>) (newBuffer [255, 255])
       = Some ((None, emptyFrame\<lparr>lengthF := 65535\<rparr>), ?e)"
    by simp
  from t3 readFromBuffer_ff8 obtain f3 where
    f3: "readLength (emptyFrame\<lparr>lengthF := 127\<rparr>)
           (newBuffer [255, 255, 255, 255, 255, 255, 255, 255]) = Some ((None, f3), ?e)"
      "f3 = emptyFrame\<lparr>lengthF := 127\<rparr>\<lparr>lengthF := lengthF f3\<rparr>"
      "unat (lengthF f3) = bigEndian [255, 255, 255, 255, 255, 255, 255, 255] mod 2 ^ 63"
    by auto
  from f3(3) have "lengthF f3 = 9223372036854775807" by (auto dest: w64)
  with f3 have c3: "readLength (emptyFrame\<lparr>lengthF := 127\<rparr>)
         (newBuffer [255, 255, 255, 255, 255, 255, 255, 255])
       = Some ((None, emptyFrame\<lparr>lengthF := 9223372036854775807\<rparr>), ?e)"
    by simp
  from readInitial_text_126 c0 c1 c2 c3 show ?thesis by blast
qed


section \<open>Encoding and decoding a frame: the round trip\<close>

lemma toBytes_valid:
  assumes "opcodeExist (opcode f)" and "length (key f) = 0 \<or> length (key f) = 4"
    and "length (payload f) \<le> 9223372036854775807"
  shows "toBytes f =
           ([(if fin f then 128 else 0) + word_of_int (opcode f),
             (if key f \<noteq> [] then 128 else 0)
               + (if length (payload f) \<le> 125 then of_nat (length (payload f))
                  else if length (payload f) \<le> 65535 then 126 else 127)]
            @ toBytesPayloadLengthExt f @ key f @ toBytesPayloadData f, None)"
  using assms
  by (auto simp: toBytes_def validate_def validateKey_def validatePayload_def Let_def
      toBytesFin_def toBytesOpcode_def toBytesMasked_def toBytesPayloadLength_def
      numeral_2_eq_2)

text \<open>The two header bytes.\<close>

lemma header0_fin:
  assumes "opcodeExist op"
  shows "drop_bit 7 ((if fn then 128 else 0) + word_of_int op :: byte) = 1 \<longleftrightarrow> fn"
  using assms by (auto simp: opcodeExist_def drop_bit_eq_div)

lemma header0_rsv:
  assumes "opcodeExist op"
  shows "((if fn then 128 else 0) + word_of_int op :: byte) AND 112 = 0"
  using assms by (auto simp: opcodeExist_def)

lemma header0_opcode:
  assumes "opcodeExist op"
  shows "uint ((if fn then 128 else 0) + word_of_int op :: byte) AND 15 = op"
  using assms by (auto simp: opcodeExist_def)

lemma byte_high_bit: "drop_bit 7 (w :: byte) = 1 \<longleftrightarrow> 128 \<le> unat w"
proof -
  have lt: "unat w < 256" using unsigned_less [of w, where 'a = nat] by simp
  have "drop_bit 7 w = 1 \<longleftrightarrow> unat (drop_bit 7 w) = unat (1 :: byte)"
    by (simp only: word_unat_eq_iff)
  also have "\<dots> \<longleftrightarrow> unat w div 128 = 1"
    by (simp add: unat_div_distrib drop_bit_eq_div)
  also have "\<dots> \<longleftrightarrow> 128 \<le> unat w" using lt by auto
  finally show ?thesis .
qed

lemma byte_low_bits: "(ucast (w :: byte) AND 127 :: 64 word) = of_nat (unat w mod 128)"
proof -
  have lt: "unat w < 256" using unsigned_less [of w, where 'a = nat] by simp
  have "(ucast w AND 127 :: 64 word) = take_bit 7 (ucast w)"
    by (simp add: take_bit_eq_mask mask_eq_exp_minus_1)
  moreover have "unat (take_bit 7 (ucast w :: 64 word)) = unat w mod 128"
    using lt by (simp add: unat_mod_distrib unsigned_ucast_eq take_bit_nat_eq_self take_bit_eq_mod)
  ultimately have "unat (ucast w AND 127 :: 64 word) = unat w mod 128" by simp
  then show ?thesis by (metis of_nat_unat ucast_id)
qed

lemma unat_marker:
  assumes "m < 128"
  shows "unat ((if k then 128 else 0) + of_nat m :: byte) = (if k then 128 else 0) + m"
  using assms by (simp add: unat_word_ariths unat_of_nat)

lemma unat_ucast_byte: "unat (ucast (w :: 'a :: len word) :: byte) = unat w mod 256"
  by (simp add: unsigned_ucast_eq take_bit_eq_mod)

lemma digits16:
  fixes n :: nat
  assumes "n < 65536"
  shows "n div 256 mod 256 * 256 + n mod 256 = n"
  using assms by simp

lemma digits64:
  fixes n :: nat
  assumes "n < 2 ^ 64"
  shows "n div 2 ^ 56 mod 256 * 256 ^ 7 + (n div 2 ^ 48 mod 256 * 256 ^ 6
          + (n div 2 ^ 40 mod 256 * 256 ^ 5 + (n div 2 ^ 32 mod 256 * 256 ^ 4
          + (n div 2 ^ 24 mod 256 * 256 ^ 3 + (n div 2 ^ 16 mod 256 * 256 ^ 2
          + (n div 2 ^ 8 mod 256 * 256 + n mod 256)))))) = n"
proof -
  have s: "\<And>k. n mod (2 ^ k * 256) = 2 ^ k * (n div 2 ^ k mod 256) + n mod 2 ^ k"
    by (rule mod_mult2_eq)
  have "n = n mod (2 ^ 56 * 256)" using assms by simp
  also have "\<dots> = 2 ^ 56 * (n div 2 ^ 56 mod 256) + n mod (2 ^ 48 * 256)"
    by (subst s) simp
  also have "n mod (2 ^ 48 * 256) = 2 ^ 48 * (n div 2 ^ 48 mod 256) + n mod (2 ^ 40 * 256)"
    by (subst s) simp
  also have "n mod (2 ^ 40 * 256) = 2 ^ 40 * (n div 2 ^ 40 mod 256) + n mod (2 ^ 32 * 256)"
    by (subst s) simp
  also have "n mod (2 ^ 32 * 256) = 2 ^ 32 * (n div 2 ^ 32 mod 256) + n mod (2 ^ 24 * 256)"
    by (subst s) simp
  also have "n mod (2 ^ 24 * 256) = 2 ^ 24 * (n div 2 ^ 24 mod 256) + n mod (2 ^ 16 * 256)"
    by (subst s) simp
  also have "n mod (2 ^ 16 * 256) = 2 ^ 16 * (n div 2 ^ 16 mod 256) + n mod (2 ^ 8 * 256)"
    by (subst s) simp
  also have "n mod (2 ^ 8 * 256) = 2 ^ 8 * (n div 2 ^ 8 mod 256) + n mod 256"
    by (subst s) simp
  finally show ?thesis by simp
qed

lemma bigEndian_PutUint16: "bigEndian (PutUint16 w) = unat w"
proof -
  have "unat w < 65536" using unsigned_less [of w, where 'a = nat] by simp
  from digits16 [OF this] show ?thesis
    by (simp add: PutUint16_def unat_ucast_byte unat_div_distrib drop_bit_eq_div)
qed

lemma bigEndian_PutUint64: "bigEndian (PutUint64 w) = unat w"
proof -
  have "unat w < 2 ^ 64" using unsigned_less [of w, where 'a = nat] by simp
  from digits64 [OF this] show ?thesis
    by (simp add: PutUint64_def unat_ucast_byte unat_div_distrib drop_bit_eq_div)
qed

lemma readFromBuffer_first:
  assumes "bs = xs @ post" and "length xs = 2"
  shows "readFromBuffer (bufferOver e bs) 2 = Some ((xs, None), afterFill e bs 2)"
proof -
  have "readFromBuffer (bufferOver e bs) 2 = Some ((take 2 bs, None), afterFill e bs 2)"
    using assms
    by (subst readFromBuffer_empty_buffer [where c = bs and cs = "[]"])
       (auto simp: bufferOver_def afterFill_def)
  with assms show ?thesis by simp
qed

lemma readFromBuffer_header:
  assumes "bs = pre @ xs @ post" and "length pre = h" and "h + length xs \<le> defaultBufSize"
  shows "readFromBuffer (afterFill e bs h) (length xs)
           = Some ((xs, None), afterFill e bs (h + length xs))"
proof -
  have tk: "take defaultBufSize bs = pre @ xs @ take (defaultBufSize - h - length xs) post"
    using assms by simp
  have "length xs \<le> Buffered (afterFill e bs h)"
    using assms by (simp add: Buffered_def afterFill_def)
  from readFromBuffer_buffered [OF this] show ?thesis
    using assms by (simp add: afterFill_def tk)
qed

lemma readFromBuffer_last:
  assumes "bs = pre @ xs" and "length pre = h" and "h < defaultBufSize"
  shows "\<exists>b'. readFromBuffer (afterFill e bs h) (length xs) = Some ((xs, None), b')"
proof (cases "length bs \<le> defaultBufSize")
  case True
  with assms have "h + length xs \<le> defaultBufSize" by simp
  from readFromBuffer_header [of bs pre xs "[]" h, OF _ assms(2) this] assms(1)
  show ?thesis by simp
next
  case False
  let ?b = "afterFill e bs h"
  have b: "buf ?b = take (defaultBufSize - h) xs"
    using assms by (simp add: afterFill_def)
  have p: "pending (rd ?b) = [drop (defaultBufSize - h) xs]"
    using assms False by (simp add: afterFill_def)
  have long: "defaultBufSize - h < length xs" using assms False by simp
  have ne: "buf ?b \<noteq> []" using assms long b by auto
  have lt: "length (buf ?b) < length xs" using assms long b by simp
  have sum: "length (buf ?b) + length (drop (defaultBufSize - h) xs) = length xs"
    using long b by simp
  from readFromBuffer_exact_rest [OF ne lt p sum] b show ?thesis by simp
qed

lemma maskBytes_length [simp]: "length (maskBytes p k) = length p"
  by (simp add: maskBytes_def)

lemma maskBytes_involution: "maskBytes (maskBytes p k) k = p"
  by (rule nth_equalityI) (simp_all add: maskBytes_def xor.assoc)

lemma toBytesPayloadData_length [simp]: "length (toBytesPayloadData f) = length (payload f)"
  by (simp add: toBytesPayloadData_def Let_def)

lemma opcodeExist_iff: "opcodeExist i \<longleftrightarrow> i \<in> {0, 1, 2, 8, 9, 10}"
  by (auto simp: opcodeExist_def)

lemma word64_of_unat: "unat (w :: 64 word) = n \<Longrightarrow> w = of_nat n"
  by auto

text \<open>The four readers on the encoding of a valid frame.\<close>

lemma readInitial_encoded:
  assumes op: "opcodeExist op" and m: "m < 128"
    and bs: "bs = [(if fn then 128 else 0) + word_of_int op, (if k then 128 else 0) + of_nat m] @ post"
  shows "readInitial emptyFrame (bufferOver e bs)
           = Some ((None, \<lparr>fin = fn, opcode = op, masked = k, lengthF = of_nat m,
                            key = [], payload = []\<rparr>), afterFill e bs 2)"
proof -
  let ?b0 = "(if fn then 128 else 0) + word_of_int op :: byte"
  let ?b1 = "(if k then 128 else 0) + of_nat m :: byte"
  have r: "readFromBuffer (bufferOver e bs) 2 = Some (([?b0, ?b1], None), afterFill e bs 2)"
    using bs by (intro readFromBuffer_first [where post = post]) simp_all
  have u1: "unat ?b1 = (if k then 128 else 0) + m" by (rule unat_marker [OF m])
  have hi: "drop_bit 7 ?b1 = 1 \<longleftrightarrow> k"
    using m by (simp only: byte_high_bit u1) simp
  have lo: "(ucast ?b1 AND 127 :: 64 word) = of_nat m"
    using m by (simp only: byte_low_bits u1) simp
  show ?thesis
    by (simp add: readInitial_def r Let_def emptyFrame_def op
          header0_fin [OF op] header0_rsv [OF op] header0_opcode [OF op] hi lo)
qed


lemma readLength_encoded:
  assumes l: "length (payload f) \<le> 9223372036854775807"
    and g: "lengthF g = of_nat (if length (payload f) \<le> 125 then length (payload f)
                               else if length (payload f) \<le> 65535 then 126 else 127)"
    and bs: "bs = pre @ toBytesPayloadLengthExt f @ post" and pre: "length pre = 2"
  shows "readLength g (afterFill e bs 2)
           = Some ((None, g\<lparr>lengthF := of_nat (length (payload f))\<rparr>),
                   afterFill e bs (2 + length (toBytesPayloadLengthExt f)))"
proof -
  let ?l = "length (payload f)"
  let ?ext = "toBytesPayloadLengthExt f"
  consider (small) "?l \<le> 125" | (mid) "125 < ?l" "?l \<le> 65535" | (large) "65535 < ?l"
    by linarith
  then show ?thesis
  proof cases
    case small
    then have "lengthF g \<le> 125"
      using g by (simp add: word_le_nat_alt unat_of_nat)
    moreover have "?ext = []" using small by (simp add: toBytesPayloadLengthExt_def)
    moreover have "g\<lparr>lengthF := of_nat ?l\<rparr> = g" using g small by simp
    ultimately show ?thesis by (simp add: readLength_small)
  next
    case mid
    then have lg: "lengthF g = 126" using g by simp
    then have big: "\<not> lengthF g \<le> 125" by simp
    have ext: "?ext = PutUint16 (of_nat ?l)" using mid by (simp add: toBytesPayloadLengthExt_def)
    then have len: "length ?ext = 2" by (simp add: PutUint16_def)
    have "readFromBuffer (afterFill e bs 2) (length ?ext)
            = Some ((?ext, None), afterFill e bs (2 + length ?ext))"
      using bs pre len by (intro readFromBuffer_header [where pre = pre and post = post]) simp_all
    then have rd: "readFromBuffer (afterFill e bs 2) (if lengthF g = 127 then 8 else 2)
            = Some ((?ext, None), afterFill e bs (2 + length ?ext))"
      using lg len by simp
    from readLength_ext [OF big rd] obtain g' where
      g': "readLength g (afterFill e bs 2) = Some ((None, g'), afterFill e bs (2 + length ?ext))"
        "g' = g\<lparr>lengthF := lengthF g'\<rparr>" "unat (lengthF g') = bigEndian ?ext mod 2 ^ 63"
      by blast
    have "bigEndian ?ext = ?l"
      using mid by (simp add: ext bigEndian_PutUint16 unat_of_nat)
    with g'(3) mid have "unat (lengthF g') = ?l" by simp
    then have "lengthF g' = of_nat ?l" by (rule word64_of_unat)
    with g' show ?thesis by simp
  next
    case large
    then have lg: "lengthF g = 127" using g by simp
    then have big: "\<not> lengthF g \<le> 125" by simp
    have ext: "?ext = PutUint64 (of_nat ?l)"
      using large l by (simp add: toBytesPayloadLengthExt_def)
    then have len: "length ?ext = 8" by (simp add: PutUint64_def)
    have "readFromBuffer (afterFill e bs 2) (length ?ext)
            = Some ((?ext, None), afterFill e bs (2 + length ?ext))"
      using bs pre len by (intro readFromBuffer_header [where pre = pre and post = post]) simp_all
    then have rd: "readFromBuffer (afterFill e bs 2) (if lengthF g = 127 then 8 else 2)
            = Some ((?ext, None), afterFill e bs (2 + length ?ext))"
      using lg len by simp
    from readLength_ext [OF big rd] obtain g' where
      g': "readLength g (afterFill e bs 2) = Some ((None, g'), afterFill e bs (2 + length ?ext))"
        "g' = g\<lparr>lengthF := lengthF g'\<rparr>" "unat (lengthF g') = bigEndian ?ext mod 2 ^ 63"
      by blast
    have "bigEndian ?ext = ?l"
      using l by (simp add: ext bigEndian_PutUint64 unat_of_nat)
    with g'(3) l have "unat (lengthF g') = ?l" by simp
    then have "lengthF g' = of_nat ?l" by (rule word64_of_unat)
    with g' show ?thesis by simp
  qed
qed

lemma readMaskKey_encoded:
  assumes k: "length k = 0 \<or> length k = 4" and g: "masked g = (k \<noteq> [])" "key g = []"
    and bs: "bs = pre @ k @ post" and pre: "length pre = h" and h: "h \<le> 10"
  shows "readMaskKey g (afterFill e bs h) = Some ((None, g\<lparr>key := k\<rparr>), afterFill e bs (h + length k))"
proof (cases "k = []")
  case True
  with g show ?thesis by (simp add: readMaskKey_def)
next
  case False
  with k have len: "length k = 4" by simp
  have "readFromBuffer (afterFill e bs h) (length k)
          = Some ((k, None), afterFill e bs (h + length k))"
    using bs pre h len by (intro readFromBuffer_header [where pre = pre and post = post]) simp_all
  with False g len show ?thesis by (simp add: readMaskKey_def)
qed

lemma readPayload_encoded:
  assumes l: "length (payload f) \<le> 9223372036854775807"
    and k: "length (key f) = 0 \<or> length (key f) = 4"
    and g: "masked g = (key f \<noteq> [])" "key g = key f" "lengthF g = of_nat (length (payload f))"
    and bs: "bs = pre @ toBytesPayloadData f" and pre: "length pre = h" and h: "h \<le> 14"
  shows "\<exists>b'. readPayload g (afterFill e bs h) = Some ((None, g\<lparr>payload := payload f\<rparr>), b')"
proof -
  have u: "unat (lengthF g) = length (toBytesPayloadData f)"
    using l g by (simp add: unat_of_nat)
  from h have "h < defaultBufSize" by simp
  from readFromBuffer_last [OF bs pre this] obtain b' where
    "readFromBuffer (afterFill e bs h) (length (toBytesPayloadData f))
       = Some ((toBytesPayloadData f, None), b')"
    by blast
  then have "readPayload g (afterFill e bs h)
      = Some ((None, g\<lparr>payload := (if masked g then maskBytes (toBytesPayloadData f) (key g)
                                      else toBytesPayloadData f)\<rparr>), b')"
    by (simp add: readPayload_def u Let_def)
  moreover have "(if masked g then maskBytes (toBytesPayloadData f) (key g)
                  else toBytesPayloadData f) = payload f"
    using k g by (auto simp: toBytesPayloadData_def Let_def maskBytes_involution)
  ultimately show ?thesis by auto
qed

lemma toBytes_newFrame:
  assumes op: "opcode f \<in> {0, 1, 2, 8, 9, 10}"
    and k: "length (key f) = 0 \<or> length (key f) = 4"
    and l: "length (payload f) \<le> 2 ^ 63 - 1"
  shows "\<exists>bs f' b'. toBytes f = (bs, None) \<and> newFrame (bufferOver e bs) = Some (Inr f', b')
           \<and> fin f' = fin f \<and> opcode f' = opcode f \<and> key f' = key f \<and> payload f' = payload f"
proof -
  let ?l = "length (payload f)"
  let ?m = "if ?l \<le> 125 then ?l else if ?l \<le> 65535 then 126 else 127"
  let ?hdr = "[(if fin f then 128 else 0) + word_of_int (opcode f),
               (if key f \<noteq> [] then 128 else 0) + of_nat ?m] :: byte list"
  let ?ext = "toBytesPayloadLengthExt f"
  let ?pd = "toBytesPayloadData f"
  let ?bs = "?hdr @ ?ext @ key f @ ?pd"
  let ?f1 = "\<lparr>fin = fin f, opcode = opcode f, masked = (key f \<noteq> []), lengthF = of_nat ?m,
              key = [], payload = []\<rparr>"
  let ?f2 = "?f1\<lparr>lengthF := of_nat ?l\<rparr>"
  let ?f3 = "?f2\<lparr>key := key f\<rparr>"
  let ?f4 = "?f3\<lparr>payload := payload f\<rparr>"
  from op have ope: "opcodeExist (opcode f)" by (simp add: opcodeExist_iff)
  from l have l': "?l \<le> 9223372036854775807" by simp
  have m: "?m < 128" by simp
  have enc: "toBytes f = (?bs, None)"
    using toBytes_valid [OF ope k l'] by (simp add: if_distrib [of of_nat])
  have extlen: "length ?ext \<le> 8"
    by (simp add: toBytesPayloadLengthExt_def Let_def PutUint16_def PutUint64_def)
  have r1: "readInitial emptyFrame (bufferOver e ?bs) = Some ((None, ?f1), afterFill e ?bs 2)"
    by (rule readInitial_encoded [OF ope m, where post = "?ext @ key f @ ?pd"]) simp
  have r2: "readLength ?f1 (afterFill e ?bs 2) = Some ((None, ?f2), afterFill e ?bs (2 + length ?ext))"
    by (rule readLength_encoded [OF l', where pre = ?hdr and post = "key f @ ?pd"]) simp_all
  have r3: "readMaskKey ?f2 (afterFill e ?bs (2 + length ?ext))
              = Some ((None, ?f3), afterFill e ?bs (2 + length ?ext + length (key f)))"
    using extlen
    by (intro readMaskKey_encoded [OF k, where pre = "?hdr @ ?ext" and post = ?pd]) simp_all
  have "\<exists>b'. readPayload ?f3 (afterFill e ?bs (2 + length ?ext + length (key f)))
              = Some ((None, ?f3\<lparr>payload := payload f\<rparr>), b')"
    using extlen k
    by (intro readPayload_encoded [OF l' k, where pre = "?hdr @ ?ext @ key f"]) auto
  then obtain b' where
    r4: "readPayload ?f3 (afterFill e ?bs (2 + length ?ext + length (key f)))
           = Some ((None, ?f4), b')"
    by blast
  have "newFrame (bufferOver e ?bs) = Some (Inr ?f4, b')"
    by (simp only: newFrame_def runReads.simps r1 r2 r3 r4 option.case prod.case)
  with enc show ?thesis
    by (intro exI [of _ ?bs] exI [of _ ?f4] exI [of _ b']) simp
qed

text \<open>
  C1. For every frame whose opcode is one of 0, 1, 2, 8, 9, 10, whose key has length 0 or
  4 and whose payload has at most \<open>2 ^ 63 - 1\<close> bytes, \<^verbatim>\<open>toBytes\<close> succeeds and
  \<^verbatim>\<open>newFrame\<close>, reading from a new buffered reader over the bytes produced (whether or
  not the source reports its end after them), returns a frame with the same \<open>fin\<close>,
  \<open>opcode\<close>, \<open>key\<close> and \<open>payload\<close>. The fields \<open>lengthF\<close> and \<open>masked\<close> of the
  input are not looked at.
\<close>

theorem frame_roundtrip:
  assumes "opcode f \<in> {0, 1, 2, 8, 9, 10}"
    and "length (key f) = 0 \<or> length (key f) = 4"
    and "length (payload f) \<le> 2 ^ 63 - 1"
  shows "\<exists>bs f' b'. toBytes f = (bs, None) \<and> newFrame (bufferOver e bs) = Some (Inr f', b')
           \<and> fin f' = fin f \<and> opcode f' = opcode f \<and> key f' = key f \<and> payload f' = payload f"
  using assms by (rule toBytes_newFrame)

theorem frame_roundtrip_witness:
  "opcode \<lparr>fin = True, opcode = 1, masked = False, lengthF = 0,
            key = [10, 15, 1, 120], payload = [104, 105]\<rparr> \<in> {0, 1, 2, 8, 9, 10}
   \<and> length (key \<lparr>fin = True, opcode = 1, masked = False, lengthF = 0,
                   key = [10, 15, 1, 120], payload = [104, 105]\<rparr>) = 4
   \<and> toBytes \<lparr>fin = True, opcode = 1, masked = False, lengthF = 0,
               key = [10, 15, 1, 120], payload = [104, 105]\<rparr>
       = ([129, 130, 10, 15, 1, 120, 98, 102], None)
   \<and> (\<exists>f' b'. newFrame (newBuffer [129, 130, 10, 15, 1, 120, 98, 102]) = Some (Inr f', b')
         \<and> fin f' \<and> opcode f' = 1 \<and> key f' = [10, 15, 1, 120] \<and> payload f' = [104, 105])"
proof -
  let ?f = "\<lparr>fin = True, opcode = 1, masked = False, lengthF = 0,
             key = [10, 15, 1, 120], payload = [104, 105]\<rparr>"
  have h1: "opcode ?f \<in> {0, 1, 2, 8, 9, 10}" by simp
  have h2: "length (key ?f) = 0 \<or> length (key ?f) = 4" by simp
  have h3: "length (payload ?f) \<le> 2 ^ 63 - 1" by simp
  have enc: "toBytes ?f = ([129, 130, 10, 15, 1, 120, 98, 102], None)"
    by (simp add: toBytes_def validate_def opcodeExist_def validateKey_def validatePayload_def
        toBytesFin_def toBytesOpcode_def toBytesMasked_def toBytesPayloadLength_def
        toBytesPayloadLengthExt_def toBytesPayloadData_def maskBytes_def numeral_2_eq_2 upt_rec)
  from frame_roundtrip [OF h1 h2 h3, of False] enc h1 show ?thesis by (auto simp: newBuffer_def)
qed

section \<open>The client's opening handshake: properties\<close>

text \<open>
  C3. The claim: a response that \<^verbatim>\<open>Dial\<close> accepts and that carries a non-empty
  Sec-WebSocket-Protocol header names a subprotocol the client advertised. The program:
  \<^verbatim>\<open>validateResponse\<close> runs four validations and
  \<^verbatim>\<open>validateResponseSecWebsocketProtocol\<close> is not one of them. A response with status
  101, the right Upgrade, Connection and Sec-WebSocket-Accept headers and the subprotocol
  \<open>v2\<close>, to a request that advertised \<open>client, v1\<close>, passes \<^verbatim>\<open>validateResponse\<close>,
  although the validation written for this case rejects it.
\<close>

theorem validateResponse_skips_protocol:
  "validateResponse unicodeLower digest64
     \<lparr>StatusCode = 101,
      Header = Set (Set (Set (Set Map.empty ''Upgrade'' ''websocket'') ''Connection'' ''upgrade'')
                 ''Sec-WebSocket-Accept'' (makeAcceptKey digest64 k)) ''Sec-WebSocket-Protocol'' ''v2'',
      Request = \<lparr>RequestHeader =
                  Set (Set Map.empty ''Sec-WebSocket-Key'' k) ''Sec-WebSocket-Protocol'' ''client, v1''\<rparr>\<rparr>
     = None
   \<and> validateResponseSecWebsocketProtocol
     \<lparr>StatusCode = 101,
      Header = Set (Set (Set (Set Map.empty ''Upgrade'' ''websocket'') ''Connection'' ''upgrade'')
                 ''Sec-WebSocket-Accept'' (makeAcceptKey digest64 k)) ''Sec-WebSocket-Protocol'' ''v2'',
      Request = \<lparr>RequestHeader =
                  Set (Set Map.empty ''Sec-WebSocket-Key'' k) ''Sec-WebSocket-Protocol'' ''client, v1''\<rparr>\<rparr>
     = Some (OpenError ''server choose a sub protocol which was not in the list sent by the client'')"
  by (simp add: validateResponse_def validateResponseStatus_def validateResponseUpgradeHeader_def
      validateResponseConnectionHeader_def validateResponseSecWebsocketAcceptHeader_def
      validateResponseSecWebsocketProtocol_def Get_def Set_def ToLower_def isASCII_def headerToSlice_def Trim_def
      CanonicalMIMEHeaderKey_def validHeaderFieldByte_def upperASCII_def lowerASCII_def)

text \<open>
  What \<^verbatim>\<open>parseURLHost\<close> does on a valid scheme: the host is left as it is when it has,
  anywhere, a colon followed by a digit, and gets the default port of the scheme
  appended otherwise.
\<close>

lemma portMatch_iff:
  "portMatch h \<longleftrightarrow> (\<exists>i. Suc i < length h \<and> h ! i = CHR '':'' \<and> isDigit (h ! Suc i))"
proof (induction h rule: portMatch.induct)
  case (1 c d cs)
  show ?case
  proof
    assume "portMatch (c # d # cs)"
    then consider "c = CHR '':'' \<and> isDigit d" | "portMatch (d # cs)" by auto
    then show "\<exists>i. Suc i < length (c # d # cs) \<and> (c # d # cs) ! i = CHR '':''
                  \<and> isDigit ((c # d # cs) ! Suc i)"
    proof cases
      case 1
      then show ?thesis by (intro exI [of _ 0]) simp
    next
      case 2
      with "1.IH" obtain i where "Suc i < length (d # cs)" "(d # cs) ! i = CHR '':''"
        "isDigit ((d # cs) ! Suc i)" by auto
      then show ?thesis by (intro exI [of _ "Suc i"]) simp
    qed
  next
    assume "\<exists>i. Suc i < length (c # d # cs) \<and> (c # d # cs) ! i = CHR '':''
                  \<and> isDigit ((c # d # cs) ! Suc i)"
    then obtain i where i: "Suc i < length (c # d # cs)" "(c # d # cs) ! i = CHR '':''"
        "isDigit ((c # d # cs) ! Suc i)" by blast
    show "portMatch (c # d # cs)"
    proof (cases i)
      case 0
      with i show ?thesis by simp
    next
      case (Suc j)
      with i have "Suc j < length (d # cs) \<and> (d # cs) ! j = CHR '':'' \<and> isDigit ((d # cs) ! Suc j)"
        by simp
      with "1.IH" show ?thesis by auto
    qed
  qed
qed simp_all

lemma parseURLHost_behaviour:
  assumes "schemeValid (Scheme u)"
  shows "parseURLHost u =
           (None, if portMatch (Host u) then u
                  else u\<lparr>Host := Host u @ (if Scheme u = ''ws'' then '':22'' else '':443'')\<rparr>)"
  using assms by (auto simp: parseURLHost_def schemeValid_def)

text \<open>
  C8. The claim: a host without a \<^verbatim>\<open>:PORT\<close> suffix gets the default port of its scheme
  appended. The program on the IPv6 literal \<^verbatim>\<open>[::1]\<close>, which has no port: the
  unanchored expression finds \<^verbatim>\<open>:1\<close> inside the brackets, takes it for a port and
  leaves the host without one.
\<close>

theorem parseURLHost_ipv6_literal:
  "parseURLHost \<lparr>Scheme = ''ws'', Host = ''[::1]''\<rparr> = (None, \<lparr>Scheme = ''ws'', Host = ''[::1]''\<rparr>)
   \<and> parseURL (\<lambda>u. if u = ''ws://[::1]/chat'' then Inr \<lparr>Scheme = ''ws'', Host = ''[::1]''\<rparr>
                      else Inl (ErrOther ''parse'')) ''ws://[::1]/chat''
       = Inr \<lparr>Scheme = ''ws'', Host = ''[::1]''\<rparr>"
  by (simp add: parseURL_def parseURLScheme_def schemeMatch_def parseURLHost_def schemeValid_def
      isLetter_def isDigit_def)

section \<open>The socket: properties\<close>

lemma TCPClose_closed: "state s = stateClosed \<Longrightarrow> TCPClose s = s"
  by (simp add: TCPClose_def)

text \<open>
  C6. A call \<^verbatim>\<open>Write(opcode, payload)\<close> on a socket that is not closed, whose frame
  encodes without error and whose flush fails with an error: \<^verbatim>\<open>Write\<close> returns nil;
  afterwards the flush error is the stored close error, the state is closed, the
  transport has been closed once more than before, and the close handler, when one is
  set, has been called once more, with the flush error.
\<close>

theorem Write_flush_failure:
  assumes "state s \<noteq> stateClosed"
    and "toBytes (writeFrame s oc p env) = (b, None)"
    and "flushErr env = Some e"
  shows "fst (Write s oc p env) = None
         \<and> closeError (snd (Write s oc p env)) = Some e
         \<and> state (snd (Write s oc p env)) = stateClosed
         \<and> connCloses (snd (Write s oc p env)) = connCloses s + 1
         \<and> closeCalls (snd (Write s oc p env))
             = (if CloseHandlerSet s then closeCalls s @ [Some e] else closeCalls s)
         \<and> written (snd (Write s oc p env)) = written s @ [b]"
  using assms by (simp add: Write_def TCPClose_def callCloseHandler_def Let_def)

lemmas toBytes_eval = toBytes_def validate_def opcodeExist_def validateKey_def validatePayload_def
  toBytesFin_def toBytesOpcode_def toBytesMasked_def toBytesPayloadLength_def
  toBytesPayloadLengthExt_def toBytesPayloadData_def maskBytes_def numeral_2_eq_2 emptyFrame_def
  writeFrame_def randomByteSlice_def PutUint32_def upt_rec

theorem Write_flush_failure_witness:
  "state (newSocket True False False False True) \<noteq> stateClosed
   \<and> toBytes (writeFrame (newSocket True False False False True) OpcodeText [104, 105]
        \<lparr>draws = (\<lambda>_. 0), flushErr = Some (ErrNetOp ''broken pipe'')\<rparr>) = ([129, 2, 104, 105], None)
   \<and> fst (Write (newSocket True False False False True) OpcodeText [104, 105]
        \<lparr>draws = (\<lambda>_. 0), flushErr = Some (ErrNetOp ''broken pipe'')\<rparr>) = None
   \<and> closeError (snd (Write (newSocket True False False False True) OpcodeText [104, 105]
        \<lparr>draws = (\<lambda>_. 0), flushErr = Some (ErrNetOp ''broken pipe'')\<rparr>))
       = Some (ErrNetOp ''broken pipe'')
   \<and> state (snd (Write (newSocket True False False False True) OpcodeText [104, 105]
        \<lparr>draws = (\<lambda>_. 0), flushErr = Some (ErrNetOp ''broken pipe'')\<rparr>)) = stateClosed
   \<and> closeCalls (snd (Write (newSocket True False False False True) OpcodeText [104, 105]
        \<lparr>draws = (\<lambda>_. 0), flushErr = Some (ErrNetOp ''broken pipe'')\<rparr>))
       = [Some (ErrNetOp ''broken pipe'')]"
proof -
  let ?s = "newSocket True False False False True"
  let ?env = "\<lparr>draws = (\<lambda>_. 0), flushErr = Some (ErrNetOp ''broken pipe'')\<rparr>"
  have h1: "state ?s \<noteq> stateClosed" by (simp add: newSocket_def)
  have h2: "toBytes (writeFrame ?s OpcodeText [104, 105] ?env) = ([129, 2, 104, 105], None)"
    by (simp add: toBytes_eval newSocket_def)
  have h3: "flushErr ?env = Some (ErrNetOp ''broken pipe'')" by simp
  have c: "CloseHandlerSet ?s" "closeCalls ?s = []" by (simp_all add: newSocket_def)
  from Write_flush_failure [OF h1 h2 h3] h1 h2 c show ?thesis by simp
qed

text \<open>Every step tears the transport down at most once.\<close>

lemma tornDownOnce_refl: "tornDownOnce s s"
  by (simp add: tornDownOnce_def)

lemma tornDownOnce_trans:
  "tornDownOnce s s' \<Longrightarrow> tornDownOnce s' s'' \<Longrightarrow> tornDownOnce s s''"
  by (auto simp: tornDownOnce_def split: if_splits)

lemma tornDownOnce_TCPClose: "tornDownOnce s (TCPClose s)"
  by (simp add: tornDownOnce_def TCPClose_def callCloseHandler_def Let_def)

lemma tornDownOnce_tcpClose: "tornDownOnce s (tcpClose s)"
  using tornDownOnce_TCPClose by (simp add: tcpClose_def tornDownOnce_refl)

lemma tornDownOnce_memo: "tornDownOnce s (s\<lparr>closeError := e\<rparr>)"
  by (simp add: tornDownOnce_def)

lemma tornDownOnce_Write: "tornDownOnce s (snd (Write s oc p env))"
proof (cases "state s = stateClosed")
  case True
  then show ?thesis by (simp add: Write_def tornDownOnce_def)
next
  case False
  obtain b err where tb: "toBytes (writeFrame s oc p env) = (b, err)" by (cases "toBytes (writeFrame s oc p env)")
  show ?thesis
  proof (cases err)
    case (Some a)
    with False tb show ?thesis by (simp add: Write_def tornDownOnce_def)
  next
    case None
    show ?thesis
    proof (cases "flushErr env")
      case (Some e)
      have "tornDownOnce s (s\<lparr>written := written s @ [b], closeError := Some e\<rparr>)"
        by (simp add: tornDownOnce_def)
      then have "tornDownOnce s (TCPClose (s\<lparr>written := written s @ [b], closeError := Some e\<rparr>))"
        using tornDownOnce_TCPClose by (rule tornDownOnce_trans)
      with False tb None Some show ?thesis by (simp add: Write_def Let_def)
    next
      case n: None
      with False tb None show ?thesis by (simp add: Write_def Let_def tornDownOnce_def)
    qed
  qed
qed

lemma tornDownOnce_CloseWithError: "tornDownOnce s (CloseWithError s e env)"
  unfolding CloseWithError_def Let_def
  by (rule tornDownOnce_trans [OF tornDownOnce_memo tornDownOnce_Write])

lemma tornDownOnce_Close: "tornDownOnce s (Close s env)"
  by (simp add: Close_def tornDownOnce_CloseWithError)

lemma tornDownOnce_callReadHandler: "tornDownOnce s (callReadHandler s oc p)"
  by (simp add: callReadHandler_def tornDownOnce_def)

lemma tornDownOnce_callPongHandler: "tornDownOnce s (callPongHandler s p)"
  by (simp add: callPongHandler_def tornDownOnce_def)

lemma tornDownOnce_callPingHandler: "tornDownOnce s (callPingHandler s p env)"
proof (cases "PingHandlerSet s")
  case True
  then show ?thesis by (simp add: callPingHandler_def tornDownOnce_def)
next
  case False
  then show ?thesis by (simp add: callPingHandler_def defaultPingHandler_def tornDownOnce_Write)
qed

lemma tornDownOnce_readClose:
  assumes "state s \<noteq> stateClosed"
  shows "tornDownOnce s (readClose s pl env)"
proof -
  let ?c = "fst (NewCloseError pl)"
  let ?s1 = "s\<lparr>closeError := Some (ErrClose ?c)\<rparr>"
  have a: "tornDownOnce s ?s1" by (rule tornDownOnce_memo)
  show ?thesis
  proof (cases "state s = stateClosing")
    case True
    then show ?thesis
      by (simp add: readClose_def Let_def tornDownOnce_trans [OF a tornDownOnce_tcpClose])
  next
    case nc: False
    let ?s2 = "?s1\<lparr>state := stateClosing\<rparr>"
    let ?b = "if snd (NewCloseError pl) = None then toBytesCode ?c else []"
    let ?s3 = "snd (Write ?s2 OpcodeClose ?b env)"
    have b: "tornDownOnce s ?s2" using assms by (simp add: tornDownOnce_def)
    have "tornDownOnce s ?s3" by (rule tornDownOnce_trans [OF b tornDownOnce_Write])
    then have "tornDownOnce s (tcpClose ?s3)" by (rule tornDownOnce_trans [OF _ tornDownOnce_tcpClose])
    with nc show ?thesis by (simp add: readClose_def Let_def)
  qed
qed

lemma tornDownOnce_readStep: "tornDownOnce s (snd (readStep s r env))"
proof (cases "state s = stateClosed")
  case True
  then show ?thesis by (simp add: readStep_def tornDownOnce_refl)
next
  case False
  have eofcase: "\<And>e. tornDownOnce s (TCPClose (s\<lparr>closeError := e\<rparr>))"
    by (rule tornDownOnce_trans [OF tornDownOnce_memo tornDownOnce_TCPClose])
  show ?thesis
  proof (cases r)
    case (Inl err)
    with False show ?thesis
      by (cases err) (simp_all add: readStep_def tornDownOnce_CloseWithError eofcase)
  next
    case (Inr f)
    with False show ?thesis
      by (simp add: readStep_def tornDownOnce_CloseWithError tornDownOnce_callReadHandler
          tornDownOnce_callPingHandler tornDownOnce_callPongHandler tornDownOnce_refl
          tornDownOnce_readClose)
  qed
qed

lemma tornDownOnce_read: "tornDownOnce s (read s inputs)"
proof (induction inputs arbitrary: s)
  case Nil
  show ?case by (simp add: tornDownOnce_refl)
next
  case (Cons x inputs)
  obtain r env where x: "x = (r, env)" by (cases x)
  obtain go s' where st: "readStep s r env = (go, s')" by (cases "readStep s r env")
  have a: "tornDownOnce s s'" using tornDownOnce_readStep [of s r env] st by simp
  show ?case
  proof (cases go)
    case True
    with x st have "read s (x # inputs) = read s' inputs" by simp
    with a Cons.IH [of s'] show ?thesis by (auto intro: tornDownOnce_trans)
  next
    case False
    with x st a show ?thesis by simp
  qed
qed

lemma tornDownOnce_exec: "tornDownOnce s (exec s x)"
  by (cases x)
     (simp_all add: tornDownOnce_Write tornDownOnce_TCPClose tornDownOnce_Close
        tornDownOnce_CloseWithError tornDownOnce_read Listen_def)

lemma tornDownOnce_run: "tornDownOnce s (run s ops)"
proof (induction ops arbitrary: s)
  case Nil
  show ?case by (simp add: run_def tornDownOnce_refl)
next
  case (Cons x ops)
  have "run s (x # ops) = run (exec s x) ops" by (simp add: run_def)
  with tornDownOnce_exec [of s x] Cons.IH [of "exec s x"] show ?case
    by (auto intro: tornDownOnce_trans)
qed

text \<open>
  C7. On a socket whose state is closed \<^verbatim>\<open>TCPClose\<close> changes nothing, and no
  sequence of operations (\<^verbatim>\<open>Write\<close>, \<^verbatim>\<open>TCPClose\<close>, \<^verbatim>\<open>Close\<close>,
  \<^verbatim>\<open>CloseWithError\<close>, \<^verbatim>\<open>Listen\<close> over any frames and errors read) closes the
  transport or calls the close handler again. Over any sequence of operations, from any
  socket, the close handler is called at most once more and the transport closed at
  most once more; from a new socket, at most once.
\<close>

theorem CloseHandler_at_most_once:
  "(state s = stateClosed \<longrightarrow> TCPClose s = s)
   \<and> (state s = stateClosed \<longrightarrow>
        state (run s ops) = stateClosed \<and> closeCalls (run s ops) = closeCalls s
        \<and> connCloses (run s ops) = connCloses s)
   \<and> length (closeCalls (run s ops)) \<le> length (closeCalls s) + 1
   \<and> connCloses (run s ops) \<le> connCloses s + 1
   \<and> length (closeCalls (run (newSocket srv rh pih poh ch) ops)) \<le> 1
   \<and> connCloses (run (newSocket srv rh pih poh ch) ops) \<le> 1"
proof -
  have a: "tornDownOnce s (run s ops)" by (rule tornDownOnce_run)
  have b: "tornDownOnce (newSocket srv rh pih poh ch) (run (newSocket srv rh pih poh ch) ops)"
    by (rule tornDownOnce_run)
  have n: "closeCalls (newSocket srv rh pih poh ch) = []" "connCloses (newSocket srv rh pih poh ch) = 0"
    by (simp_all add: newSocket_def)
  from a have 1: "state s = stateClosed \<longrightarrow>
        state (run s ops) = stateClosed \<and> closeCalls (run s ops) = closeCalls s
        \<and> connCloses (run s ops) = connCloses s"
    by (simp add: tornDownOnce_def)
  from a have 2: "length (closeCalls (run s ops)) \<le> length (closeCalls s) + 1"
    "connCloses (run s ops) \<le> connCloses s + 1"
    by (auto simp: tornDownOnce_def split: if_splits)
  from b n have 3: "length (closeCalls (run (newSocket srv rh pih poh ch) ops)) \<le> 1"
    "connCloses (run (newSocket srv rh pih poh ch) ops) \<le> 1"
    by (auto simp: tornDownOnce_def split: if_splits)
  from 1 2 3 TCPClose_closed show ?thesis by blast
qed

theorem CloseHandler_at_most_once_witness:
  "state (TCPClose (newSocket False False False False True)) = stateClosed
   \<and> TCPClose (TCPClose (newSocket False False False False True))
       = TCPClose (newSocket False False False False True)
   \<and> closeCalls (run (TCPClose (newSocket False False False False True))
        [OpTCPClose, OpWrite OpcodeText [104] \<lparr>draws = (\<lambda>_. 0), flushErr = None\<rparr>,
         OpClose \<lparr>draws = (\<lambda>_. 0), flushErr = None\<rparr>, OpTCPClose]) = [None]
   \<and> connCloses (run (TCPClose (newSocket False False False False True))
        [OpTCPClose, OpWrite OpcodeText [104] \<lparr>draws = (\<lambda>_. 0), flushErr = None\<rparr>,
         OpClose \<lparr>draws = (\<lambda>_. 0), flushErr = None\<rparr>, OpTCPClose]) = 1
   \<and> length (closeCalls (run (newSocket False False False False True)
        [OpClose \<lparr>draws = (\<lambda>_. 0), flushErr = None\<rparr>, OpTCPClose, OpTCPClose])) \<le> 1"
proof -
  let ?s0 = "newSocket False False False False True"
  let ?env = "\<lparr>draws = (\<lambda>_. 0), flushErr = None\<rparr>"
  let ?ops = "[OpTCPClose, OpWrite OpcodeText [104] ?env, OpClose ?env, OpTCPClose]"
  have h: "state (TCPClose ?s0) = stateClosed"
    by (simp add: TCPClose_def newSocket_def callCloseHandler_def Let_def)
  have c: "closeCalls (TCPClose ?s0) = [None]" "connCloses (TCPClose ?s0) = 1"
    by (simp_all add: TCPClose_def newSocket_def callCloseHandler_def Let_def)
  from CloseHandler_at_most_once [of "TCPClose ?s0" ?ops] h c
  have 1: "TCPClose (TCPClose ?s0) = TCPClose ?s0"
    "closeCalls (run (TCPClose ?s0) ?ops) = [None]" "connCloses (run (TCPClose ?s0) ?ops) = 1"
    by simp_all
  from CloseHandler_at_most_once [of ?s0 "[OpClose ?env, OpTCPClose, OpTCPClose]" False False False False True]
  have 2: "length (closeCalls (run ?s0 [OpClose ?env, OpTCPClose, OpTCPClose])) \<le> 1"
    by simp
  from h 1 2 show ?thesis by simp
qed












section \<open>Encoding with slices that share memory: properties\<close>

lemma maskLoop_other: "a \<noteq> p \<Longrightarrow> cells (maskLoop p k is h) a = cells h a"
  by (induction "is" arbitrary: h) (simp_all add: store_def)

lemma maskLoop_append:
  "maskLoop p k (xs @ ys) h = maskLoop p k ys (maskLoop p k xs h)"
  by (induction xs arbitrary: h) simp_all

lemma maskLoop_prefix:
  assumes "p \<noteq> k" and "n \<le> length (cells h p)"
  shows "cells (maskLoop p k [0..<n] h) p
           = map (\<lambda>i. cells h p ! i XOR cells h k ! (i mod 4)) [0..<n] @ drop n (cells h p)"
  using assms(2)
proof (induction n)
  case 0
  show ?case by simp
next
  case (Suc n)
  let ?xs = "cells h p"
  let ?f = "\<lambda>i. ?xs ! i XOR cells h k ! (i mod 4)"
  let ?h' = "maskLoop p k [0..<n] h"
  from Suc.prems have n: "n < length ?xs" by simp
  have IH: "cells ?h' p = map ?f [0..<n] @ drop n ?xs" using Suc by simp
  have key: "cells ?h' k = cells h k" using assms(1) by (simp add: maskLoop_other)
  have dr: "drop n ?xs = ?xs ! n # drop (Suc n) ?xs" using n by (simp add: Cons_nth_drop_Suc)
  have at: "cells ?h' p ! n = ?xs ! n" by (simp add: IH nth_append dr)
  have "cells (maskLoop p k [0..<Suc n] h) p
          = (cells ?h' p)[n := cells ?h' p ! n XOR cells ?h' k ! (n mod 4)]"
    by (simp add: maskLoop_append store_def)
  also have "\<dots> = (cells ?h' p)[n := ?f n]"
    by (simp only: at key)
  also have "\<dots> = (map ?f [0..<n] @ drop n ?xs)[n := ?f n]"
    by (simp only: IH)
  also have "\<dots> = map ?f [0..<n] @ (?f n # drop (Suc n) ?xs)"
    by (simp add: list_update_append dr)
  finally show ?case by simp
qed

lemma maskLoop_heap: "maskLoop p k is h = h\<lparr>cells := cells (maskLoop p k is h)\<rparr>"
proof (induction "is" arbitrary: h)
  case Nil
  show ?case by simp
next
  case (Cons i "is")
  let ?h1 = "store h p ((cells h p)[i := cells h p ! i XOR cells h k ! (i mod 4)])"
  have "maskLoop p k (i # is) h = maskLoop p k is ?h1" by simp
  also have "\<dots> = ?h1\<lparr>cells := cells (maskLoop p k is ?h1)\<rparr>" by (rule Cons.IH)
  also have "\<dots> = h\<lparr>cells := cells (maskLoop p k (i # is) h)\<rparr>" by (simp add: store_def)
  finally show ?case .
qed

lemma maskInPlace_cells:
  assumes "p \<noteq> k"
  shows "maskInPlace h p k = h\<lparr>cells := (cells h)(p := maskBytes (cells h p) (cells h k))\<rparr>"
proof -
  have "cells (maskInPlace h p k) = (cells h)(p := maskBytes (cells h p) (cells h k))"
  proof
    fix a
    show "cells (maskInPlace h p k) a = ((cells h)(p := maskBytes (cells h p) (cells h k))) a"
    proof (cases "a = p")
      case True
      then show ?thesis
        using maskLoop_prefix [OF assms, of "length (cells h p)" h]
        by (simp add: maskInPlace_def maskBytes_def)
    next
      case False
      then show ?thesis by (simp add: maskInPlace_def maskLoop_other)
    qed
  qed
  then show ?thesis
    using maskLoop_heap [of p k "[0..<length (cells h p)]" h] by (simp add: maskInPlace_def)
qed

text \<open>toBytesPayloadData on the heap: a new array holds the (masked) payload.\<close>

lemma toBytesPayloadDataH_result:
  assumes "rkey f < nextAddr h"
  shows "toBytesPayloadDataH h f
           = (nextAddr h,
              h\<lparr>cells := (cells h)(nextAddr h := toBytesPayloadData (frameAt h f)),
                nextAddr := Suc (nextAddr h)\<rparr>)"
proof -
  from assms have ne: "nextAddr h \<noteq> rkey f" by simp
  show ?thesis
    using assms ne
    by (simp add: toBytesPayloadDataH_def alloc_def Let_def maskInPlace_cells
        toBytesPayloadData_def frameAt_def)
qed

lemma toBytesH_result:
  assumes k: "rkey f < nextAddr h" and p: "rpayload f < nextAddr h"
  shows "\<exists>h'. snd (toBytesH h f) = h'
            \<and> (\<forall>a < nextAddr h. cells h' a = cells h a)
            \<and> (case fst (toBytesH h f) of
                 (Some q, err) \<Rightarrow> err = None \<and> toBytes (frameAt h f) = (cells h' q, None)
               | (None, err) \<Rightarrow> toBytes (frameAt h f) = ([], err))"
proof (cases "validate (frameAt h f)")
  case (Some e)
  then show ?thesis by (simp add: toBytesH_def toBytes_def)
next
  case None
  show ?thesis
    using None k p
    apply (simp add: toBytesH_def toBytes_def alloc_def store_def Let_def split_def)
    apply (simp add: toBytesPayloadDataH_result frameAt_def)
    done
qed

lemma toBytesH_valid:
  assumes "validate (frameAt h f) = None"
  shows "\<exists>q. fst (toBytesH h f) = (Some q, None)"
  using assms by (simp add: toBytesH_def split_def Let_def)

text \<open>
  C9. Encoding never changes the frame's payload. For every heap and every frame whose
  key and payload refer to allocated arrays (they may be the same array), after
  \<^verbatim>\<open>toBytes\<close> the payload array, like every array allocated before the call, holds
  what it held before, whether \<^verbatim>\<open>toBytes\<close> accepts the frame or not. When it accepts,
  the bytes it returns are those of the encoder on values, so with a key of four bytes
  they carry the payload in masked form.
\<close>

theorem toBytes_keeps_payload:
  assumes "rkey f < nextAddr h" and "rpayload f < nextAddr h"
  shows "cells (snd (toBytesH h f)) (rpayload f) = cells h (rpayload f)
         \<and> (\<forall>a < nextAddr h. cells (snd (toBytesH h f)) a = cells h a)
         \<and> (\<forall>q. fst (fst (toBytesH h f)) = Some q \<longrightarrow>
               toBytes (frameAt h f) = (cells (snd (toBytesH h f)) q, None))
         \<and> (fst (fst (toBytesH h f)) = None \<longrightarrow>
               toBytes (frameAt h f) = ([], snd (fst (toBytesH h f))))"
proof -
  from toBytesH_result [OF assms]
  have old: "\<forall>a < nextAddr h. cells (snd (toBytesH h f)) a = cells h a"
    and res: "case fst (toBytesH h f) of
                (Some q, err) \<Rightarrow> err = None \<and> toBytes (frameAt h f) = (cells (snd (toBytesH h f)) q, None)
              | (None, err) \<Rightarrow> toBytes (frameAt h f) = ([], err)"
    by auto
  from old assms(2) have "cells (snd (toBytesH h f)) (rpayload f) = cells h (rpayload f)" by simp
  moreover from res have "\<forall>q. fst (fst (toBytesH h f)) = Some q \<longrightarrow>
               toBytes (frameAt h f) = (cells (snd (toBytesH h f)) q, None)"
    by (cases "fst (toBytesH h f)") auto
  moreover from res have "fst (fst (toBytesH h f)) = None \<longrightarrow>
               toBytes (frameAt h f) = ([], snd (fst (toBytesH h f)))"
    by (cases "fst (toBytesH h f)") auto
  ultimately show ?thesis using old by blast
qed

theorem toBytes_keeps_payload_witness:
  "rkey \<lparr>rfin = True, ropcode = 1, rmasked = False, rlength = 0, rkey = 0, rpayload = 1\<rparr>
     < nextAddr \<lparr>cells = (\<lambda>_. [])(0 := [10, 15, 1, 120], 1 := [104, 105]), nextAddr = 2\<rparr>
   \<and> rpayload \<lparr>rfin = True, ropcode = 1, rmasked = False, rlength = 0, rkey = 0, rpayload = 1\<rparr>
     < nextAddr \<lparr>cells = (\<lambda>_. [])(0 := [10, 15, 1, 120], 1 := [104, 105]), nextAddr = 2\<rparr>
   \<and> cells (snd (toBytesH \<lparr>cells = (\<lambda>_. [])(0 := [10, 15, 1, 120], 1 := [104, 105]), nextAddr = 2\<rparr>
        \<lparr>rfin = True, ropcode = 1, rmasked = False, rlength = 0, rkey = 0, rpayload = 1\<rparr>)) 1
       = [104, 105]
   \<and> (\<exists>q. fst (toBytesH \<lparr>cells = (\<lambda>_. [])(0 := [10, 15, 1, 120], 1 := [104, 105]), nextAddr = 2\<rparr>
        \<lparr>rfin = True, ropcode = 1, rmasked = False, rlength = 0, rkey = 0, rpayload = 1\<rparr>)
         = (Some q, None)
       \<and> cells (snd (toBytesH \<lparr>cells = (\<lambda>_. [])(0 := [10, 15, 1, 120], 1 := [104, 105]), nextAddr = 2\<rparr>
        \<lparr>rfin = True, ropcode = 1, rmasked = False, rlength = 0, rkey = 0, rpayload = 1\<rparr>)) q
         = [129, 130, 10, 15, 1, 120, 98, 102])"
proof -
  let ?h = "\<lparr>cells = (\<lambda>_. [])(0 := [10, 15, 1, 120], 1 := [104, 105]), nextAddr = 2\<rparr>"
  let ?f = "\<lparr>rfin = True, ropcode = 1, rmasked = False, rlength = 0, rkey = 0, rpayload = 1\<rparr>"
  have h1: "rkey ?f < nextAddr ?h" by simp
  have h2: "rpayload ?f < nextAddr ?h" by simp
  have enc: "toBytes (frameAt ?h ?f) = ([129, 130, 10, 15, 1, 120, 98, 102], None)"
    by (simp add: frameAt_def toBytes_def validate_def opcodeExist_def validateKey_def
        validatePayload_def toBytesFin_def toBytesOpcode_def toBytesMasked_def
        toBytesPayloadLength_def toBytesPayloadLengthExt_def toBytesPayloadData_def maskBytes_def
        numeral_2_eq_2 upt_rec)
  have "validate (frameAt ?h ?f) = None"
    by (simp add: frameAt_def validate_def opcodeExist_def validateKey_def validatePayload_def)
  from toBytesH_valid [OF this] obtain q where q: "fst (toBytesH ?h ?f) = (Some q, None)" by blast
  from toBytes_keeps_payload [OF h1 h2] q enc
  have "cells (snd (toBytesH ?h ?f)) 1 = [104, 105]"
    "cells (snd (toBytesH ?h ?f)) q = [129, 130, 10, 15, 1, 120, 98, 102]"
    by simp_all
  with h1 h2 q show ?thesis by blast
qed

end
